theory Spec2Isabelle
  imports Complex_Main "HOL-Library.Word" "HOL-Library.Multiset"
begin

section \<open>Data model\<close>

text \<open>
  \<^verbatim>\<open>common.Address\<close> is a 20-byte array, \<^verbatim>\<open>common.Hash\<close> a 32-byte array; Go's
  \<^verbatim>\<open>uint64\<close> and \<^verbatim>\<open>uint\<close> are 64-bit words. A Go \<^verbatim>\<open>error\<close> is represented by its message.
  A nullable \<^verbatim>\<open>*bigNumber.Int\<close> is an \<open>int option\<close> (\<open>None\<close> is the nil pointer).
\<close>

type_synonym address = "160 word"
type_synonym hash = "256 word"
type_synonym uint64 = "64 word"
type_synonym error = string

text \<open>
  \<^verbatim>\<open>models.TVaultKind\<close>: the function under study compares the kind with
  \<^verbatim>\<open>models.VaultKindMultiple\<close> and \<^verbatim>\<open>models.VaultKindSingle\<close> only; every other kind is
  \<open>VaultKindOther\<close>.
\<close>

datatype TVaultKind = VaultKindMultiple | VaultKindSingle | VaultKindOther

record TVaultMetadata =
  ShouldUseV2APR :: bool

text \<open>The fields of \<^verbatim>\<open>models.TVault\<close> that the source files read.\<close>

record TVault =
  ChainID :: uint64
  Address :: address
  Version :: string
  Kind :: TVaultKind
  Activation :: uint64
  LastTotalAssets :: "int option"
  Metadata :: TVaultMetadata

text \<open>
  The fields of \<^verbatim>\<open>models.TStrategy\<close> that \<^verbatim>\<open>computeVaultV3ForwardAPY\<close> reads. The source
  tests \<^verbatim>\<open>LastDebtRatio\<close> against nil and hands \<^verbatim>\<open>LastPerformanceFee\<close> to
  \<^verbatim>\<open>SetInt\<close> unchecked, so the first is nullable here and the second is not.
\<close>

record TStrategy =
  StrategyAddress :: address
  LastDebtRatio :: "int option"
  LastPerformanceFee :: int

record TCompositeData =
  V3OracleCurrentAPR :: "real option"
  V3OracleStratRatioAPR :: "real option"

text \<open>
  \<^verbatim>\<open>TForwardAPY\<close> holds pointers to \<^verbatim>\<open>bigNumber.Float\<close>: the zero value
  \<^verbatim>\<open>TForwardAPY{}\<close> has the empty string and nil pointers.
\<close>

record TForwardAPY =
  Type :: string
  NetAPY :: "real option"
  Composite :: TCompositeData

definition emptyTForwardAPY :: TForwardAPY where
  "emptyTForwardAPY =
     \<lparr>Type = [], NetAPY = None,
      Composite = \<lparr>V3OracleCurrentAPR = None, V3OracleStratRatioAPR = None\<rparr>\<rparr>"

section \<open>Library functions on strings\<close>

text \<open>
  \<^verbatim>\<open>filterUpdateManagementFee\<close> builds the key of a record from \<^verbatim>\<open>Address.Hex\<close> and
  \<^verbatim>\<open>strconv.FormatUint\<close>; \<^verbatim>\<open>HandleUpdateManagementFee\<close> takes it apart again with
  \<^verbatim>\<open>strings.Split\<close>, \<^verbatim>\<open>common.HexToAddress\<close> and \<^verbatim>\<open>strconv.ParseUint\<close>; and
  \<^verbatim>\<open>computeVaultV3ForwardAPY\<close> compares the oracle address with \<^verbatim>\<open>common.HexToAddress(``)\<close>.
  These are functions of Go's standard library and of go-ethereum, written out here as
  their documentation and code describe them, since the claims depend on the round trip.
\<close>

subsection \<open>strconv.FormatUint and strconv.ParseUint\<close>

text \<open>\<^verbatim>\<open>FormatUint(i, 10)\<close>: the decimal digits of \<open>i\<close>, with no leading zero.\<close>

fun formatDecimal :: "nat \<Rightarrow> string" where
  "formatDecimal n =
     (if n < 10 then [''0123456789'' ! n]
      else formatDecimal (n div 10) @ [''0123456789'' ! (n mod 10)])"

definition FormatUint :: "uint64 \<Rightarrow> string" where
  "FormatUint i = formatDecimal (unat i)"

definition maxUint64 :: nat where
  "maxUint64 = 2 ^ 64 - 1"

text \<open>
  \<^verbatim>\<open>ParseUint(s, 10, 64)\<close>: the value and the error. A character that is not a decimal
  digit (or the empty string) gives 0 and a syntax error; a value above the largest
  \<^verbatim>\<open>uint64\<close> gives that largest value and a range error. The accumulator \<open>n\<close> is the
  \<^verbatim>\<open>uint64\<close> of the library, kept below \<open>2^64\<close> by the two range checks.
\<close>

fun parseUintLoop :: "nat \<Rightarrow> string \<Rightarrow> uint64 \<times> error option" where
  "parseUintLoop n [] = (of_nat n, None)"
| "parseUintLoop n (c # cs) =
     (if \<not> (48 \<le> (of_char c :: nat) \<and> (of_char c :: nat) \<le> 57)
      then (0, Some ''invalid syntax'')
      else (let d = (of_char c :: nat) - 48 in
            if n \<ge> maxUint64 div 10 + 1 then (of_nat maxUint64, Some ''value out of range'')
            else (let n1 = n * 10 + d in
                  if n1 > maxUint64 then (of_nat maxUint64, Some ''value out of range'')
                  else parseUintLoop n1 cs)))"

definition ParseUint :: "string \<Rightarrow> uint64 \<times> error option" where
  "ParseUint s = (if s = [] then (0, Some ''invalid syntax'') else parseUintLoop 0 s)"

subsection \<open>strings.Split\<close>

text \<open>
  \<^verbatim>\<open>Split(s, sep)\<close> for a separator of one byte, the only kind the source passes: the
  substrings between the separators; a string without separator (the empty one included)
  gives the list of itself.
\<close>

fun Split :: "string \<Rightarrow> char \<Rightarrow> string list" where
  "Split [] sep = [[]]"
| "Split (c # cs) sep =
     (if c = sep then [] # Split cs sep
      else (case Split cs sep of
              w # ws \<Rightarrow> (c # w) # ws
            | [] \<Rightarrow> [[c]]))"

subsection \<open>Address.Hex and common.HexToAddress\<close>

text \<open>
  \<^verbatim>\<open>Hex\<close> writes \<^verbatim>\<open>0x\<close> and the 40 hexadecimal digits of the 20 bytes, then turns a
  letter into upper case where the matching nibble of the Keccak-256 hash of the lower-case
  digits is above 7 (the EIP-55 checksum). The hash is a parameter: \<open>hashNibbleHigh a i\<close>
  tells whether the nibble for position \<open>i\<close> of address \<open>a\<close> is above 7.
\<close>

fun hexDigits :: "nat \<Rightarrow> nat \<Rightarrow> nat list" where
  "hexDigits 0 n = []"
| "hexDigits (Suc k) n = hexDigits k (n div 16) @ [n mod 16]"

definition checksumCase :: "bool \<Rightarrow> char \<Rightarrow> char" where
  "checksumCase hashNibbleHigh c =
     (if (of_char c :: nat) > 57 \<and> hashNibbleHigh then char_of ((of_char c :: nat) - 32) else c)"

definition Hex :: "(address \<Rightarrow> nat \<Rightarrow> bool) \<Rightarrow> address \<Rightarrow> string" where
  "Hex hashNibbleHigh a =
     ''0x'' @ map (\<lambda>(i, d). checksumCase (hashNibbleHigh a i) (''0123456789abcdef'' ! d))
               (zip [0..<40] (hexDigits 40 (unat a)))"

text \<open>
  \<^verbatim>\<open>HexToAddress(s) = BytesToAddress(FromHex(s))\<close>. \<^verbatim>\<open>FromHex\<close> drops a \<^verbatim>\<open>0x\<close> prefix, pads
  an odd number of digits with a leading zero and decodes pairs of digits into bytes,
  keeping the bytes decoded before the first invalid digit. \<^verbatim>\<open>BytesToAddress\<close> keeps the
  last 20 bytes, right-aligned: as a number, the big-endian value modulo \<open>2^160\<close>.
\<close>

definition fromHexChar :: "char \<Rightarrow> nat option" where
  "fromHexChar c =
     (let n = (of_char c :: nat) in
      if 48 \<le> n \<and> n \<le> 57 then Some (n - 48)
      else if 97 \<le> n \<and> n \<le> 102 then Some (n - 97 + 10)
      else if 65 \<le> n \<and> n \<le> 70 then Some (n - 65 + 10)
      else None)"

fun DecodeString :: "string \<Rightarrow> nat list" where
  "DecodeString (p # q # rest) =
     (case fromHexChar p of
        None \<Rightarrow> []
      | Some a \<Rightarrow> (case fromHexChar q of
                    None \<Rightarrow> []
                  | Some b \<Rightarrow> (a * 16 + b) # DecodeString rest))"
| "DecodeString s = []"

definition has0xPrefix :: "string \<Rightarrow> bool" where
  "has0xPrefix s =
     (length s \<ge> 2 \<and> s ! 0 = CHR ''0'' \<and> (s ! 1 = CHR ''x'' \<or> s ! 1 = CHR ''X''))"

definition FromHex :: "string \<Rightarrow> nat list" where
  "FromHex s =
     (let s = (if has0xPrefix s then drop 2 s else s);
          s = (if length s mod 2 = 1 then CHR ''0'' # s else s)
      in DecodeString s)"

definition BytesToAddress :: "nat list \<Rightarrow> address" where
  "BytesToAddress b = of_nat (foldl (\<lambda>v x. v * 256 + x) 0 b)"

definition HexToAddress :: "string \<Rightarrow> address" where
  "HexToAddress s = BytesToAddress (FromHex s)"

section \<open>The collaborators of the forward-APY calculator\<close>

text \<open>
  The bound oracle contract: its two read-only calls answer an error or the fixed-point
  integer. One computation reads one snapshot of the chain, so each call is a function of
  its arguments.
\<close>

record YVaultsV3APROracleCaller =
  GetStrategyApr :: "address \<Rightarrow> int \<Rightarrow> error + int"
  GetCurrentApr :: "address \<Rightarrow> error + int"

record TChain =
  APROracleContractAddress :: address

text \<open>
  \<^verbatim>\<open>env.GetChain\<close> and \<^verbatim>\<open>contracts.NewYVaultsV3APROracleCaller\<close> (given the contract
  address and the RPC client of the chain) are parameters of the model.
\<close>

record environment =
  GetChain :: "uint64 \<Rightarrow> TChain option"
  NewYVaultsV3APROracleCaller :: "address \<Rightarrow> uint64 \<Rightarrow> error + YVaultsV3APROracleCaller"

text \<open>Every oracle call is recorded, in the order it is made.\<close>

datatype oracle_call = CallGetStrategyApr address int | CallGetCurrentApr address

fun isCallGetCurrentApr :: "oracle_call \<Rightarrow> bool" where
  "isCallGetCurrentApr (CallGetCurrentApr a) = True"
| "isCallGetCurrentApr (CallGetStrategyApr a d) = False"

text \<open>
  Modelled from the spec: \<^verbatim>\<open>bigNumber.Float\<close> and \<^verbatim>\<open>helpers.ToNormalizedAmount\<close> are not
  among the sources. The spec has every ratio in arbitrary-precision decimal arithmetic,
  so a \<^verbatim>\<open>bigNumber.Float\<close> is a \<open>real\<close>, the constant \<^verbatim>\<open>0.9\<close> is nine tenths, and
  normalizing divides the fixed-point integer by ten to the number of decimals.
\<close>

definition ToNormalizedAmount :: "int \<Rightarrow> nat \<Rightarrow> real" where
  "ToNormalizedAmount amount decimals = real_of_int amount / 10 ^ decimals"

text \<open>
  Modelled from the spec: \<^verbatim>\<open>convertFloatAPRToAPY\<close> is called by the source but defined in
  a file that is not among the sources. The spec gives \<open>APY = (1 + APR/periods)^periods - 1\<close>.
  The narrowing to \<^verbatim>\<open>float64\<close> around the call is the identity on \<open>real\<close>.
\<close>

definition convertFloatAPRToAPY :: "real \<Rightarrow> nat \<Rightarrow> real" where
  "convertFloatAPRToAPY apr periodsPerYear =
     (1 + apr / real periodsPerYear) ^ periodsPerYear - 1"

section \<open>computeVaultV3ForwardAPY\<close>

subsection \<open>Oracle APR, with its fallback (lines 45 to 58)\<close>

definition oracleAPRResolution ::
  "YVaultsV3APROracleCaller \<Rightarrow> address \<Rightarrow> oracle_call list \<Rightarrow> real \<times> oracle_call list" where
  "oracleAPRResolution oracle vaultAddress calls =
     (let (oracleAPR, hasError) =
            (case GetStrategyApr oracle vaultAddress 0 of
               Inr expected \<Rightarrow> (ToNormalizedAmount expected 18, None)
             | Inl err \<Rightarrow> (0, Some err));
          calls = calls @ [CallGetStrategyApr vaultAddress 0]
      in if hasError \<noteq> None \<or> oracleAPR = 0
         then (case GetCurrentApr oracle vaultAddress of
                 Inr expected \<Rightarrow>
                   (ToNormalizedAmount expected 18, calls @ [CallGetCurrentApr vaultAddress])
               | Inl err \<Rightarrow> (oracleAPR, calls @ [CallGetCurrentApr vaultAddress]))
         else (oracleAPR, calls))"

subsection \<open>Debt-ratio APR (lines 64 to 128)\<close>

text \<open>
  The strategies arrive in a Go map, whose iteration order is not fixed: the model takes
  the values of the map as a list, in the order the \<^verbatim>\<open>range\<close> loop happens to visit them,
  and the theorems hold for every such list.

  The loop of the empty-vault branch: a failed query continues with the next strategy, the
  first successful one updates the accumulator and breaks.
\<close>

fun emptyVaultLoop ::
  "YVaultsV3APROracleCaller \<Rightarrow> TStrategy list \<Rightarrow> real \<Rightarrow> oracle_call list \<Rightarrow>
     real \<times> oracle_call list" where
  "emptyVaultLoop oracle [] debtRatioAPR calls = (debtRatioAPR, calls)"
| "emptyVaultLoop oracle (strategy # rest) debtRatioAPR calls =
     (case GetStrategyApr oracle (StrategyAddress strategy) 0 of
        Inl err \<Rightarrow>
          emptyVaultLoop oracle rest debtRatioAPR
            (calls @ [CallGetStrategyApr (StrategyAddress strategy) 0])
      | Inr expected \<Rightarrow>
          (let humanizedAPR = ToNormalizedAmount expected 18;
               performanceFeeFloat = real_of_int (LastPerformanceFee strategy);
               performanceFee = performanceFeeFloat / 10000;
               performanceFee = 1 - performanceFee;
               scaledStrategyAPR = humanizedAPR * performanceFee;
               debtRatioAPR = debtRatioAPR + scaledStrategyAPR;
               debtRatioAPR = debtRatioAPR * (9 / 10)
           in (debtRatioAPR, calls @ [CallGetStrategyApr (StrategyAddress strategy) 0])))"

text \<open>The loop of the other branch: every strategy is visited.\<close>

fun debtRatioLoop ::
  "YVaultsV3APROracleCaller \<Rightarrow> TStrategy list \<Rightarrow> real \<Rightarrow> oracle_call list \<Rightarrow>
     real \<times> oracle_call list" where
  "debtRatioLoop oracle [] debtRatioAPR calls = (debtRatioAPR, calls)"
| "debtRatioLoop oracle (strategy # rest) debtRatioAPR calls =
     (if LastDebtRatio strategy = None \<or> LastDebtRatio strategy = Some 0
      then debtRatioLoop oracle rest debtRatioAPR calls
      else (case GetStrategyApr oracle (StrategyAddress strategy) 0 of
              Inl err \<Rightarrow>
                debtRatioLoop oracle rest debtRatioAPR
                  (calls @ [CallGetStrategyApr (StrategyAddress strategy) 0])
            | Inr expected \<Rightarrow>
                (let humanizedAPR = ToNormalizedAmount expected 18;
                     debtRatio = ToNormalizedAmount (the (LastDebtRatio strategy)) 4;
                     scaledStrategyAPR = humanizedAPR * debtRatio;
                     performanceFeeFloat = real_of_int (LastPerformanceFee strategy);
                     performanceFee = performanceFeeFloat / 10000;
                     performanceFee = 1 - performanceFee;
                     scaledStrategyAPR = scaledStrategyAPR * performanceFee;
                     debtRatioAPR = debtRatioAPR + scaledStrategyAPR
                 in debtRatioLoop oracle rest debtRatioAPR
                      (calls @ [CallGetStrategyApr (StrategyAddress strategy) 0]))))"

definition computeDebtRatioAPR ::
  "YVaultsV3APROracleCaller \<Rightarrow> TVault \<Rightarrow> TStrategy list \<Rightarrow> oracle_call list \<Rightarrow>
     real \<times> oracle_call list" where
  "computeDebtRatioAPR oracle vault allStrategiesForVault calls =
     (let debtRatioAPR = 0 in
      if Kind vault = VaultKindMultiple then
        if LastTotalAssets vault = None \<or> LastTotalAssets vault = Some 0 then
          if length allStrategiesForVault > 0
          then emptyVaultLoop oracle allStrategiesForVault debtRatioAPR calls
          else (debtRatioAPR, calls)
        else
          (let (debtRatioAPR, calls) =
                 debtRatioLoop oracle allStrategiesForVault debtRatioAPR calls
           in (debtRatioAPR * (9 / 10), calls))
      else (debtRatioAPR, calls))"

subsection \<open>The whole function\<close>

text \<open>
  The result is paired with the oracle calls made. The three early returns answer the
  zero value before any call. The calls to \<^verbatim>\<open>logs.Error\<close> write to the log only and are
  left out.
\<close>

definition computeVaultV3ForwardAPY ::
  "environment \<Rightarrow> TVault \<Rightarrow> TStrategy list \<Rightarrow> TForwardAPY \<times> oracle_call list" where
  "computeVaultV3ForwardAPY env vault allStrategiesForVault =
     (case GetChain env (ChainID vault) of
        None \<Rightarrow> (emptyTForwardAPY, [])
      | Some chain \<Rightarrow>
          (let oracleContract = APROracleContractAddress chain in
           if oracleContract = HexToAddress [] then (emptyTForwardAPY, [])
           else (case NewYVaultsV3APROracleCaller env oracleContract (ChainID vault) of
                   Inl err \<Rightarrow> (emptyTForwardAPY, [])
                 | Inr oracle \<Rightarrow>
                     (let (oracleAPR, calls) = oracleAPRResolution oracle (Address vault) [];
                          (debtRatioAPR, calls) =
                             computeDebtRatioAPR oracle vault allStrategiesForVault calls;
                          primaryAPR =
                             (if ShouldUseV2APR (Metadata vault) then debtRatioAPR
                              else oracleAPR);
                          primaryAPY = convertFloatAPRToAPY primaryAPR 52;
                          oracleAPY = convertFloatAPRToAPY oracleAPR 52;
                          debtRatioAPY = convertFloatAPRToAPY debtRatioAPR 52
                      in (\<lparr>Type = ''v3:onchainOracle'', NetAPY = Some primaryAPY,
                           Composite = \<lparr>V3OracleCurrentAPR = Some oracleAPY,
                                        V3OracleStratRatioAPR = Some debtRatioAPY\<rparr>\<rparr>,
                          calls)))))"

subsection \<open>Vocabulary of the statements\<close>

text \<open>What the two loops test and compute for one strategy, named for the theorems.\<close>

definition hasDebtRatio :: "TStrategy \<Rightarrow> bool" where
  "hasDebtRatio strategy =
     (case LastDebtRatio strategy of None \<Rightarrow> False | Some d \<Rightarrow> d \<noteq> 0)"

definition querySucceeds :: "YVaultsV3APROracleCaller \<Rightarrow> TStrategy \<Rightarrow> bool" where
  "querySucceeds oracle strategy =
     (case GetStrategyApr oracle (StrategyAddress strategy) 0 of
        Inr expected \<Rightarrow> True | Inl err \<Rightarrow> False)"

definition strategyAPR :: "YVaultsV3APROracleCaller \<Rightarrow> TStrategy \<Rightarrow> real" where
  "strategyAPR oracle strategy =
     (case GetStrategyApr oracle (StrategyAddress strategy) 0 of
        Inr expected \<Rightarrow> ToNormalizedAmount expected 18 | Inl err \<Rightarrow> 0)"

definition feeFactor :: "TStrategy \<Rightarrow> real" where
  "feeFactor strategy = 1 - real_of_int (LastPerformanceFee strategy) / 10000"

definition debtShare :: "TStrategy \<Rightarrow> real" where
  "debtShare strategy =
     (case LastDebtRatio strategy of None \<Rightarrow> 0 | Some d \<Rightarrow> real_of_int d / 10000)"

definition strategyCall :: "TStrategy \<Rightarrow> oracle_call" where
  "strategyCall strategy = CallGetStrategyApr (StrategyAddress strategy) 0"

text \<open>The condition of line 53: the first call failed, or its normalized answer is zero.\<close>

definition strategyAprUnusable :: "YVaultsV3APROracleCaller \<Rightarrow> address \<Rightarrow> bool" where
  "strategyAprUnusable oracle a =
     (case GetStrategyApr oracle a 0 of
        Inl err \<Rightarrow> True | Inr expected \<Rightarrow> ToNormalizedAmount expected 18 = 0)"

subsection \<open>Concrete inputs\<close>

text \<open>
  The scenario of the specification: an oracle that knows the strategies at addresses 1 and
  2 (APR 0.10 and 0.08 at 18 decimals) and nothing else, a vault holding 1000, and the two
  strategies with debt ratios 6000 and 4000 and performance fees 1000 and 2000.
\<close>

definition scenarioOracle :: YVaultsV3APROracleCaller where
  "scenarioOracle =
     \<lparr>GetStrategyApr = (\<lambda>a d. if a = 1 then Inr (10 ^ 17)
                              else if a = 2 then Inr (8 * 10 ^ 16) else Inl ''unsupported''),
      GetCurrentApr = (\<lambda>a. Inl ''unsupported'')\<rparr>"

definition scenarioVault :: TVault where
  "scenarioVault =
     \<lparr>ChainID = 1, Address = 100, Version = ''3.0.2'', Kind = VaultKindMultiple,
      Activation = 0, LastTotalAssets = Some 1000,
      Metadata = \<lparr>ShouldUseV2APR = True\<rparr>\<rparr>"

definition scenarioStrategies :: "TStrategy list" where
  "scenarioStrategies =
     [\<lparr>StrategyAddress = 1, LastDebtRatio = Some 6000, LastPerformanceFee = 1000\<rparr>,
      \<lparr>StrategyAddress = 2, LastDebtRatio = Some 4000, LastPerformanceFee = 2000\<rparr>]"

text \<open>The same vault with no deposits, and two strategies the oracle cannot answer for.\<close>

definition emptyVault :: TVault where
  "emptyVault = scenarioVault\<lparr>LastTotalAssets := None\<rparr>"

definition unreachableStrategies :: "TStrategy list" where
  "unreachableStrategies =
     [\<lparr>StrategyAddress = 3, LastDebtRatio = Some 6000, LastPerformanceFee = 1000\<rparr>,
      \<lparr>StrategyAddress = 4, LastDebtRatio = Some 4000, LastPerformanceFee = 2000\<rparr>]"

text \<open>
  An environment: chain 1 has the oracle at address 500, chain 10 has no oracle deployed,
  chain 250 has one whose client cannot be built, and no other chain is known.
\<close>

definition scenarioEnv :: environment where
  "scenarioEnv =
     \<lparr>GetChain = (\<lambda>c. if c = 1 then Some \<lparr>APROracleContractAddress = 500\<rparr>
                        else if c = 10 then Some \<lparr>APROracleContractAddress = 0\<rparr>
                        else if c = 250 then Some \<lparr>APROracleContractAddress = 600\<rparr>
                        else None),
      NewYVaultsV3APROracleCaller =
        (\<lambda>a c. if a = 500 then Inr scenarioOracle else Inl ''no contract code'')\<rparr>"

section \<open>filterUpdateManagementFee and HandleUpdateManagementFee\<close>

subsection \<open>Data\<close>

record FilterOpts =
  Start :: uint64
  End :: "uint64 option"

text \<open>The fields of \<^verbatim>\<open>types.Log\<close> that the source reads through \<^verbatim>\<open>log.Event.Raw\<close>.\<close>

record RawLog =
  RawBlockNumber :: uint64
  RawTxHash :: hash
  RawTxIndex :: uint64
  RawIndex :: uint64

record Yvault043UpdateManagementFee =
  ManagementFee :: int
  Raw :: RawLog

text \<open>
  One round of \<^verbatim>\<open>for log.Next()\<close>: the event the iterator exposes and what \<^verbatim>\<open>log.Error()\<close>
  answers in that round. The iterator of one vault (\<open>logIter\<close> below, the source's
  \<^verbatim>\<open>log\<close>) is the list of its rounds.
\<close>

record iteration =
  Event :: Yvault043UpdateManagementFee
  IterationError :: "error option"

record TEventBlock =
  EventType :: string
  TxHash :: hash
  BlockNumber :: uint64
  TxIndex :: uint64
  LogIndex :: uint64
  Value :: int

text \<open>
  The chain, as the two functions see it: the filtered log query of a vault contract (on
  the chain of the given identifier, over the given block range), which fails or yields
  an iterator, and the hash behind the checksum of \<^verbatim>\<open>Hex\<close>.
\<close>

record chainBackend =
  FilterUpdateManagementFee :: "uint64 \<Rightarrow> address \<Rightarrow> FilterOpts \<Rightarrow> error + iteration list"
  HashNibbleHigh :: "address \<Rightarrow> nat \<Rightarrow> bool"

text \<open>The \<^verbatim>\<open>sync.Map\<close> shared by the goroutines, and the map the function returns.\<close>

type_synonym syncMap = "string \<rightharpoonup> TEventBlock list"
type_synonym EventHistory = "address \<rightharpoonup> (uint64 \<rightharpoonup> TEventBlock list)"

subsection \<open>One goroutine\<close>

text \<open>
  A goroutine running \<^verbatim>\<open>filterUpdateManagementFee\<close> touches the shared map in two separate
  operations per event, \<^verbatim>\<open>Load\<close> and \<^verbatim>\<open>Store\<close>, and other goroutines may run between
  them. Its control points are: before the log query; at \<^verbatim>\<open>log.Next()\<close> with the rounds
  still to come; after the \<^verbatim>\<open>Load\<close>, holding the key and the slice it is about to
  \<^verbatim>\<open>Store\<close>; and finished (\<^verbatim>\<open>wg.Done()\<close> has run).
\<close>

datatype task =
  Fetching address FilterOpts
| Iterating address "iteration list"
| Storing address string "TEventBlock list" "iteration list"
| Finished

fun isFinished :: "task \<Rightarrow> bool" where
  "isFinished Finished = True"
| "isFinished t = False"

text \<open>
  One atomic step of a goroutine on the shared map. A failed query ends the goroutine; a
  round whose \<^verbatim>\<open>log.Error()\<close> is not nil is skipped; otherwise lines 48 to 63 compute the
  key and the record, load the slice under the key and append, and the next step stores.
  \<^verbatim>\<open>contracts.NewYvault043\<close> only binds the address to the contract's fixed ABI; the source
  drops its error, and the model takes the binding as given.
\<close>

fun taskStep :: "chainBackend \<Rightarrow> uint64 \<Rightarrow> syncMap \<Rightarrow> task \<Rightarrow> syncMap \<times> task" where
  "taskStep w chainID asyncFeeMap (Fetching vaultAddress opts) =
     (case FilterUpdateManagementFee w chainID vaultAddress opts of
        Inl err \<Rightarrow> (asyncFeeMap, Finished)
      | Inr logIter \<Rightarrow> (asyncFeeMap, Iterating vaultAddress logIter))"
| "taskStep w chainID asyncFeeMap (Iterating vaultAddress []) = (asyncFeeMap, Finished)"
| "taskStep w chainID asyncFeeMap (Iterating vaultAddress (entry # logIter)) =
     (if IterationError entry \<noteq> None then (asyncFeeMap, Iterating vaultAddress logIter)
      else
        (let eventKey = Hex (HashNibbleHigh w) vaultAddress @ ''-''
                          @ FormatUint (RawBlockNumber (Raw (Event entry)));
             blockData =
               \<lparr>EventType = ''updateManagementFee'',
                TxHash = RawTxHash (Raw (Event entry)),
                BlockNumber = RawBlockNumber (Raw (Event entry)),
                TxIndex = RawTxIndex (Raw (Event entry)),
                LogIndex = RawIndex (Raw (Event entry)),
                Value = ManagementFee (Event entry)\<rparr>
         in (case asyncFeeMap eventKey of
               Some syncMap \<Rightarrow>
                 (asyncFeeMap, Storing vaultAddress eventKey (syncMap @ [blockData]) logIter)
             | None \<Rightarrow> (asyncFeeMap, Storing vaultAddress eventKey [blockData] logIter))))"
| "taskStep w chainID asyncFeeMap (Storing vaultAddress eventKey currentBlockData logIter) =
     (asyncFeeMap(eventKey \<mapsto> currentBlockData), Iterating vaultAddress logIter)"
| "taskStep w chainID asyncFeeMap Finished = (asyncFeeMap, Finished)"

subsection \<open>The goroutines together\<close>

text \<open>
  The scheduler is an input: a schedule is the list of the goroutines' indices in the order
  in which they take their atomic steps. A turn given to a finished goroutine, or to an
  index that names none, changes nothing. Every interleaving of the goroutines' steps is
  the run of some schedule.
\<close>

definition scheduleStep ::
  "chainBackend \<Rightarrow> uint64 \<Rightarrow> syncMap \<times> task list \<Rightarrow> nat \<Rightarrow> syncMap \<times> task list" where
  "scheduleStep w chainID cfg i =
     (let (asyncFeeMap, tasks) = cfg in
      if i < length tasks
      then (let (asyncFeeMap, t) = taskStep w chainID asyncFeeMap (tasks ! i)
            in (asyncFeeMap, tasks[i := t]))
      else (asyncFeeMap, tasks))"

definition runSchedule ::
  "chainBackend \<Rightarrow> uint64 \<Rightarrow> syncMap \<times> task list \<Rightarrow> nat list \<Rightarrow> syncMap \<times> task list" where
  "runSchedule w chainID cfg schedule = foldl (scheduleStep w chainID) cfg schedule"

text \<open>
  Lines 94 to 102: one goroutine per vault, in the order the \<^verbatim>\<open>range\<close> over the vault map
  visits them (the list \<open>vaults\<close>), each with its own filter options.
\<close>

definition filterOptsFor :: "TVault \<Rightarrow> uint64 \<Rightarrow> uint64 option \<Rightarrow> FilterOpts" where
  "filterOptsFor v start end =
     (let opts = \<lparr>Start = start, End = end\<rparr> in
      if start = 0 then \<lparr>Start = Activation v, End = end\<rparr> else opts)"

definition spawnTasks :: "TVault list \<Rightarrow> uint64 \<Rightarrow> uint64 option \<Rightarrow> task list" where
  "spawnTasks vaults start end =
     map (\<lambda>v. Fetching (Address v) (filterOptsFor v start end)) vaults"

definition afterWait ::
  "chainBackend \<Rightarrow> uint64 \<Rightarrow> TVault list \<Rightarrow> uint64 \<Rightarrow> uint64 option \<Rightarrow> nat list \<Rightarrow>
     syncMap \<times> task list" where
  "afterWait w chainID vaults start end schedule =
     runSchedule w chainID (Map.empty, spawnTasks vaults start end) schedule"

subsection \<open>The reshape after the barrier\<close>

text \<open>
  What a call does: it is still blocked in \<^verbatim>\<open>wg.Wait()\<close> (the schedule has not let every
  goroutine finish), it panics (an index out of range), or it returns.
\<close>

datatype 'a outcome = Blocked | Panicked | Returned 'a

text \<open>The callback of \<^verbatim>\<open>Range\<close>, lines 118 to 126, for one entry of the shared map.\<close>

definition rangeVisit ::
  "EventHistory \<Rightarrow> string \<Rightarrow> TEventBlock list \<Rightarrow> EventHistory option" where
  "rangeVisit managementFeeForVaults key value =
     (case Split key CHR ''-'' of
        part0 # part1 # parts \<Rightarrow>
          (let vaultAddress = HexToAddress part0;
               (blockNumber, err) = ParseUint part1;
               inner = (case managementFeeForVaults vaultAddress of
                          None \<Rightarrow> Map.empty
                        | Some feesOfVault \<Rightarrow> feesOfVault)
           in Some (managementFeeForVaults(vaultAddress \<mapsto> inner(blockNumber \<mapsto> value))))
      | _ \<Rightarrow> None)"

text \<open>
  \<^verbatim>\<open>Range\<close> visits the entries of the map in an order of its own: \<open>rangeOrder\<close> lists the keys
  in that order.
\<close>

fun RangeSyncMap :: "syncMap \<Rightarrow> string list \<Rightarrow> EventHistory \<Rightarrow> EventHistory outcome" where
  "RangeSyncMap asyncFeeMap [] managementFeeForVaults = Returned managementFeeForVaults"
| "RangeSyncMap asyncFeeMap (key # rangeOrder) managementFeeForVaults =
     (case asyncFeeMap key of
        None \<Rightarrow> RangeSyncMap asyncFeeMap rangeOrder managementFeeForVaults
      | Some value \<Rightarrow>
          (case rangeVisit managementFeeForVaults key value of
             None \<Rightarrow> Panicked
           | Some managementFeeForVaults \<Rightarrow>
               RangeSyncMap asyncFeeMap rangeOrder managementFeeForVaults))"

definition HandleUpdateManagementFee ::
  "chainBackend \<Rightarrow> uint64 \<Rightarrow> TVault list \<Rightarrow> uint64 \<Rightarrow> uint64 option \<Rightarrow> nat list \<Rightarrow>
     string list \<Rightarrow> EventHistory outcome" where
  "HandleUpdateManagementFee w chainID vaults start end schedule rangeOrder =
     (let (asyncManagementFeeUpdate, tasks) = afterWait w chainID vaults start end schedule in
      if list_all isFinished tasks
      then RangeSyncMap asyncManagementFeeUpdate rangeOrder Map.empty
      else Blocked)"

subsection \<open>Vocabulary of the statements\<close>

text \<open>The key of line 48, for a vault address and a block number.\<close>

definition eventKeyOf :: "(address \<Rightarrow> nat \<Rightarrow> bool) \<Rightarrow> address \<Rightarrow> uint64 \<Rightarrow> string" where
  "eventKeyOf h a b = Hex h a @ ''-'' @ FormatUint b"

text \<open>
  A key and a slice fit together: the key is the key of some vault address and block
  number, and every record of the slice carries that block number.
\<close>

definition keyedRecords :: "(address \<Rightarrow> nat \<Rightarrow> bool) \<Rightarrow> string \<Rightarrow> TEventBlock list \<Rightarrow> bool" where
  "keyedRecords h key recs =
     (\<exists>a b. key = eventKeyOf h a b \<and> (\<forall>r \<in> set recs. BlockNumber r = b))"

text \<open>
  Every entry of the shared map fits.
\<close>

definition allKeyed :: "(address \<Rightarrow> nat \<Rightarrow> bool) \<Rightarrow> syncMap \<Rightarrow> bool" where
  "allKeyed h m = (\<forall>key recs. m key = Some recs \<longrightarrow> keyedRecords h key recs)"

text \<open>
  The key and the slice a goroutine holds between its \<^verbatim>\<open>Load\<close> and its \<^verbatim>\<open>Store\<close> fit.
\<close>

fun taskKeyed :: "(address \<Rightarrow> nat \<Rightarrow> bool) \<Rightarrow> task \<Rightarrow> bool" where
  "taskKeyed h (Storing a key recs rest) = keyedRecords h key recs"
| "taskKeyed h t = True"

text \<open>
  The invariant of the Event History: a record under a vault and a block number carries
  that block number.
\<close>

definition historyKeyed :: "EventHistory \<Rightarrow> bool" where
  "historyKeyed hist =
     (\<forall>a inner b recs. hist a = Some inner \<longrightarrow> inner b = Some recs \<longrightarrow>
        (\<forall>r \<in> set recs. BlockNumber r = b))"

text \<open>
  The record of lines 49 to 56, built from one round of the iterator.
\<close>

definition blockDataOf :: "iteration \<Rightarrow> TEventBlock" where
  "blockDataOf entry =
     \<lparr>EventType = ''updateManagementFee'',
      TxHash = RawTxHash (Raw (Event entry)),
      BlockNumber = RawBlockNumber (Raw (Event entry)),
      TxIndex = RawTxIndex (Raw (Event entry)),
      LogIndex = RawIndex (Raw (Event entry)),
      Value = ManagementFee (Event entry)\<rparr>"

text \<open>
  What \<^verbatim>\<open>Load\<close> answers, as a slice: the stored slice, or the empty one when the key is absent.
\<close>

definition loaded :: "syncMap \<Rightarrow> string \<Rightarrow> TEventBlock list" where
  "loaded m key = (case m key of Some recs \<Rightarrow> recs | None \<Rightarrow> [])"

text \<open>
  The effect of one round on the shared map when no other goroutine runs between its
  \<^verbatim>\<open>Load\<close> and its \<^verbatim>\<open>Store\<close>.
\<close>

definition roundEffect :: "chainBackend \<Rightarrow> address \<Rightarrow> syncMap \<Rightarrow> iteration \<Rightarrow> syncMap" where
  "roundEffect w a m entry =
     (if IterationError entry \<noteq> None then m
      else m(eventKeyOf (HashNibbleHigh w) a (RawBlockNumber (Raw (Event entry))) \<mapsto>
               loaded m (eventKeyOf (HashNibbleHigh w) a (RawBlockNumber (Raw (Event entry))))
                 @ [blockDataOf entry]))"

text \<open>
  What the goroutine of one vault stores when it runs alone on an empty map: nothing when
  the log query fails.
\<close>

definition soloMap :: "chainBackend \<Rightarrow> uint64 \<Rightarrow> address \<Rightarrow> FilterOpts \<Rightarrow> syncMap" where
  "soloMap w c a opts =
     (case FilterUpdateManagementFee w c a opts of
        Inl err \<Rightarrow> Map.empty
      | Inr logIter \<Rightarrow> foldl (roundEffect w a) Map.empty logIter)"

text \<open>
  The state of the goroutine of vault \<open>a\<close> against the shared map, on the keys of \<open>a\<close>: the
  map holds there what the rounds already done have stored, and a goroutine about to store
  holds the slice that the next round stores.
\<close>

fun taskInv ::
  "chainBackend \<Rightarrow> uint64 \<Rightarrow> address \<Rightarrow> FilterOpts \<Rightarrow> syncMap \<Rightarrow> task \<Rightarrow> bool" where
  "taskInv w c a opts m (Fetching a' opts') =
     (a' = a \<and> opts' = opts \<and> (\<forall>b. m (eventKeyOf (HashNibbleHigh w) a b) = None))"
| "taskInv w c a opts m (Iterating a' rest) =
     (a' = a \<and>
      (\<exists>done. FilterUpdateManagementFee w c a opts = Inr (done @ rest) \<and>
         (\<forall>b. m (eventKeyOf (HashNibbleHigh w) a b) =
               foldl (roundEffect w a) Map.empty done (eventKeyOf (HashNibbleHigh w) a b))))"
| "taskInv w c a opts m (Storing a' key recs rest) =
     (a' = a \<and>
      (\<exists>done entry. FilterUpdateManagementFee w c a opts = Inr (done @ entry # rest) \<and>
         IterationError entry = None \<and>
         key = eventKeyOf (HashNibbleHigh w) a (RawBlockNumber (Raw (Event entry))) \<and>
         recs = loaded (foldl (roundEffect w a) Map.empty done) key @ [blockDataOf entry] \<and>
         (\<forall>b. m (eventKeyOf (HashNibbleHigh w) a b) =
               foldl (roundEffect w a) Map.empty done (eventKeyOf (HashNibbleHigh w) a b))))"
| "taskInv w c a opts m Finished =
     (\<forall>b. m (eventKeyOf (HashNibbleHigh w) a b) =
           soloMap w c a opts (eventKeyOf (HashNibbleHigh w) a b))"

text \<open>
  The invariant of a run, for the list of the vaults' addresses and filter options: one
  goroutine per vault, each in step with the map on its own keys, and no other key in the map.
\<close>

definition cfgInv ::
  "chainBackend \<Rightarrow> uint64 \<Rightarrow> (address \<times> FilterOpts) list \<Rightarrow> syncMap \<times> task list \<Rightarrow> bool" where
  "cfgInv w c specs cfg =
     (length (snd cfg) = length specs
      \<and> (\<forall>i < length specs.
            taskInv w c (fst (specs ! i)) (snd (specs ! i)) (fst cfg) (snd cfg ! i))
      \<and> (\<forall>key. (\<forall>i < length specs. \<forall>b.
                   key \<noteq> eventKeyOf (HashNibbleHigh w) (fst (specs ! i)) b) \<longrightarrow>
                fst cfg key = None))"

text \<open>
  The address and the filter options of each vault, as \<^verbatim>\<open>HandleUpdateManagementFee\<close>
  hands them to the goroutines.
\<close>

definition vaultSpecs ::
  "TVault list \<Rightarrow> uint64 \<Rightarrow> uint64 option \<Rightarrow> (address \<times> FilterOpts) list" where
  "vaultSpecs vaults start end = map (\<lambda>v. (Address v, filterOptsFor v start end)) vaults"

text \<open>
  The atomic steps a goroutine still has to take: one for a skipped round, two (the
  \<^verbatim>\<open>Load\<close> and the \<^verbatim>\<open>Store\<close>) for any other.
\<close>

fun roundTurns :: "iteration list \<Rightarrow> nat" where
  "roundTurns [] = 0"
| "roundTurns (entry # logIter) =
     (if IterationError entry \<noteq> None then 1 else 2) + roundTurns logIter"

fun turnsNeeded :: "chainBackend \<Rightarrow> uint64 \<Rightarrow> task \<Rightarrow> nat" where
  "turnsNeeded w c (Fetching a opts) =
     (case FilterUpdateManagementFee w c a opts of
        Inl err \<Rightarrow> 1
      | Inr logIter \<Rightarrow> 2 + roundTurns logIter)"
| "turnsNeeded w c (Iterating a logIter) = 1 + roundTurns logIter"
| "turnsNeeded w c (Storing a key recs logIter) = 2 + roundTurns logIter"
| "turnsNeeded w c Finished = 0"

text \<open>
  A schedule is fair to a call when it gives every goroutine the turns it needs to
  finish: then, and only then, \<^verbatim>\<open>wg.Wait()\<close> returns.
\<close>

definition fairSchedule ::
  "chainBackend \<Rightarrow> uint64 \<Rightarrow> TVault list \<Rightarrow> uint64 \<Rightarrow> uint64 option \<Rightarrow> nat list \<Rightarrow> bool" where
  "fairSchedule w c vaults start end schedule =
     list_all (\<lambda>i. turnsNeeded w c (spawnTasks vaults start end ! i) \<le> count_list schedule i)
       [0..<length vaults]"

text \<open>
  \<^verbatim>\<open>Range\<close> visits every key of the shared map once: \<open>rangeOrder\<close> lists the keys
  of the map after the barrier.
\<close>

definition visitsEveryKey ::
  "chainBackend \<Rightarrow> uint64 \<Rightarrow> TVault list \<Rightarrow> uint64 \<Rightarrow> uint64 option \<Rightarrow> nat list \<Rightarrow>
     string list \<Rightarrow> bool" where
  "visitsEveryKey w c vaults start end schedule rangeOrder =
     (distinct rangeOrder \<and>
      set rangeOrder = dom (fst (afterWait w c vaults start end schedule)))"

text \<open>
  The two-level view of a shared map: the vaults that have a key in it, each with its
  entries by block number.
\<close>

definition histOf :: "(address \<Rightarrow> nat \<Rightarrow> bool) \<Rightarrow> syncMap \<Rightarrow> EventHistory" where
  "histOf h m =
     (\<lambda>a. if \<exists>b. m (eventKeyOf h a b) \<noteq> None then Some (\<lambda>b. m (eventKeyOf h a b)) else None)"

text \<open>
  A schedule that gives each of \<open>n\<close> goroutines the same number of turns, round after
  round.
\<close>

definition roundRobin :: "nat \<Rightarrow> nat \<Rightarrow> nat list" where
  "roundRobin n turns = concat (replicate turns [0..<n])"

subsection \<open>Concrete inputs for the event history\<close>

text \<open>
  Concrete inputs. A round of an iterator, and the record the source builds from it.
\<close>

definition feeRound :: "uint64 \<Rightarrow> int \<Rightarrow> error option \<Rightarrow> iteration" where
  "feeRound b fee err =
     \<lparr>Event = \<lparr>ManagementFee = fee,
               Raw = \<lparr>RawBlockNumber = b, RawTxHash = 7, RawTxIndex = 1, RawIndex = 2\<rparr>\<rparr>,
      IterationError = err\<rparr>"

definition feeRecord :: "uint64 \<Rightarrow> int \<Rightarrow> TEventBlock" where
  "feeRecord b fee =
     \<lparr>EventType = ''updateManagementFee'', TxHash = 7, BlockNumber = b, TxIndex = 1,
      LogIndex = 2, Value = fee\<rparr>"

text \<open>
  A chain on which the vault at address 5 has three fee updates (two of them in block
  100), the vault at address 6 has one and then a round that reports an error, and the log
  query of every other vault fails.
\<close>

definition eventsBackend :: chainBackend where
  "eventsBackend =
     \<lparr>FilterUpdateManagementFee = (\<lambda>c a opts.
        if a = 5 then Inr [feeRound 100 200 None, feeRound 100 300 None, feeRound 101 400 None]
        else if a = 6 then Inr [feeRound 100 50 None, feeRound 102 60 (Some ''decode'')]
        else Inl ''rpc error''),
      HashNibbleHigh = (\<lambda>a i. even i)\<rparr>"

definition vaultAt :: "address \<Rightarrow> TVault" where
  "vaultAt a =
     \<lparr>ChainID = 1, Address = a, Version = ''0.4.3'', Kind = VaultKindOther, Activation = 10,
      LastTotalAssets = None, Metadata = \<lparr>ShouldUseV2APR = False\<rparr>\<rparr>"

text \<open>
  Three vaults, in two iteration orders, and the two of them whose query succeeds.
\<close>

definition eventsVaults :: "TVault list" where
  "eventsVaults = [vaultAt 5, vaultAt 6, vaultAt 9]"

text \<open>
  Three schedules: the goroutines interleaved, one after the other, and in turns.
\<close>

definition interleaved :: "nat list" where
  "interleaved = [0, 1, 2, 0, 1, 0, 1, 1, 0, 0, 1, 0, 0, 0]"

definition oneByOne :: "nat list" where
  "oneByOne = [0, 1, 1, 1, 1, 1, 1, 1, 1, 2, 2, 2, 2, 2]"

text \<open>
  The keys of the shared map in these runs.
\<close>

definition key_5_100 :: string where
  "key_5_100 = ''0x0000000000000000000000000000000000000005-100''"

definition key_5_101 :: string where
  "key_5_101 = ''0x0000000000000000000000000000000000000005-101''"

definition key_6_100 :: string where
  "key_6_100 = ''0x0000000000000000000000000000000000000006-100''"

definition rotatedVaults :: "TVault list" where
  "rotatedVaults = [vaultAt 9, vaultAt 5, vaultAt 6]"

definition remainingVaults :: "TVault list" where
  "remainingVaults = [vaultAt 5, vaultAt 6]"

definition alternating :: "nat list" where
  "alternating = [1, 0, 1, 0, 1, 0, 1, 0, 1, 0, 0, 0, 0]"

section \<open>Properties of the library functions\<close>


lemma upper_hex_chars:
  "char_of (65::nat) = CHR ''A''" "char_of (66::nat) = CHR ''B''"
  "char_of (67::nat) = CHR ''C''" "char_of (68::nat) = CHR ''D''"
  "char_of (69::nat) = CHR ''E''" "char_of (70::nat) = CHR ''F''"
  by code_simp+

lemma below_16_cases:
  "d < 16 \<Longrightarrow> d = 0 \<or> d = 1 \<or> d = 2 \<or> d = 3 \<or> d = 4 \<or> d = 5 \<or> d = 6 \<or> d = 7 \<or> d = 8
     \<or> d = 9 \<or> d = 10 \<or> d = 11 \<or> d = 12 \<or> d = 13 \<or> d = 14 \<or> d = (15::nat)"
  by arith

lemma fromHexChar_checksumCase:
  assumes "d < 16"
  shows "fromHexChar (checksumCase u (''0123456789abcdef'' ! d)) = Some d"
    and "checksumCase u (''0123456789abcdef'' ! d) \<noteq> CHR ''-''"
  using below_16_cases [OF assms]
  by (auto simp: checksumCase_def fromHexChar_def upper_hex_chars)

lemma length_hexDigits [simp]: "length (hexDigits k n) = k"
  by (induction k arbitrary: n) auto

lemma hexDigits_below: "d \<in> set (hexDigits k n) \<Longrightarrow> d < 16"
  by (induction k arbitrary: n) auto

lemma hexDigits_value:
  "foldl (\<lambda>v d. v * 16 + d) 0 (hexDigits k n) = n mod 16 ^ k"
proof (induction k arbitrary: n)
  case 0
  show ?case by simp
next
  case (Suc k)
  have "n mod (16 * 16 ^ k) = 16 * (n div 16 mod 16 ^ k) + n mod 16"
    by (rule mod_mult2_eq)
  with Suc show ?case by simp
qed

lemma DecodeString_value:
  "list_all2 (\<lambda>c d. fromHexChar c = Some d) cs ds \<Longrightarrow> even (length ds) \<Longrightarrow>
   foldl (\<lambda>v x. v * 256 + x) acc (DecodeString cs) = foldl (\<lambda>v d. v * 16 + d) acc ds"
proof (induction cs arbitrary: ds acc rule: DecodeString.induct)
  case (1 p q rest)
  then obtain d e ds' where ds: "ds = d # e # ds'" and p: "fromHexChar p = Some d"
    and q: "fromHexChar q = Some e" and r: "list_all2 (\<lambda>c d. fromHexChar c = Some d) rest ds'"
    by (auto simp: list_all2_Cons1)
  from "1.prems" ds have ev: "even (length ds')" by simp
  have step: "acc * 256 + (d * 16 + e) = (acc * 16 + d) * 16 + e" by simp
  have "foldl (\<lambda>v x. v * 256 + x) acc (DecodeString (p # q # rest)) =
      foldl (\<lambda>v x. v * 256 + x) (acc * 256 + (d * 16 + e)) (DecodeString rest)"
    by (simp add: p q)
  also have "\<dots> = foldl (\<lambda>v d. v * 16 + d) (acc * 256 + (d * 16 + e)) ds'"
    by (rule "1.IH" [OF p q r ev])
  also have "\<dots> = foldl (\<lambda>v d. v * 16 + d) acc ds"
    by (simp only: ds foldl_Cons step)
  finally show ?case .
qed (auto simp: list_all2_Cons1)

lemma Hex_chars:
  "list_all2 (\<lambda>c d. fromHexChar c = Some d) (drop 2 (Hex h a)) (hexDigits 40 (unat a))"
proof -
  have "hexDigits 40 (unat a) ! i < 16" if "i < 40" for i
    using that by (intro hexDigits_below [of _ 40 "unat a"]) simp
  then show ?thesis
    by (simp add: Hex_def list_all2_conv_all_nth fromHexChar_checksumCase(1))
qed

lemma length_Hex [simp]: "length (Hex h a) = 42"
  by (simp add: Hex_def)

lemma HexToAddress_Hex [simp]: "HexToAddress (Hex h a) = a"
proof -
  have pre: "has0xPrefix (Hex h a)" by (simp add: has0xPrefix_def Hex_def)
  have "unat a < 2 ^ 160" using unsigned_less [of a] by simp
  then have small: "unat a mod 16 ^ 40 = unat a" by simp
  have "foldl (\<lambda>v x. v * 256 + x) 0 (DecodeString (drop 2 (Hex h a))) =
      unat a mod 16 ^ 40"
    using DecodeString_value [OF Hex_chars, where acc = 0 and h1 = h and a1 = a]
    by (simp only: hexDigits_value length_hexDigits) simp
  then have "foldl (\<lambda>v x. v * 256 + x) 0 (DecodeString (drop 2 (Hex h a))) = unat a"
    by (simp only: small)
  with pre show ?thesis
    by (simp add: HexToAddress_def FromHex_def BytesToAddress_def)
qed

lemma HexToAddress_empty [simp]: "HexToAddress [] = 0"
  by (simp add: HexToAddress_def FromHex_def has0xPrefix_def BytesToAddress_def)

lemma Hex_no_dash: "CHR ''-'' \<notin> set (Hex h a)"
proof -
  have digit: "checksumCase u (''0123456789abcdef'' ! d) \<noteq> CHR ''-''"
    if "d \<in> set (hexDigits 40 (unat a))" for u d
    using that by (intro fromHexChar_checksumCase(2) hexDigits_below)
  have "c \<noteq> CHR ''-''" if "c \<in> set (Hex h a)" for c
  proof -
    from that consider "c = CHR ''0''" | "c = CHR ''x''"
      | i d where "d \<in> set (hexDigits 40 (unat a))"
          "c = checksumCase (h a i) (''0123456789abcdef'' ! d)"
      by (auto simp: Hex_def dest!: set_zip_rightD)
    then show ?thesis by cases (simp_all add: digit)
  qed
  then show ?thesis by blast
qed

lemma below_10_cases:
  "d < 10 \<Longrightarrow> d = 0 \<or> d = 1 \<or> d = 2 \<or> d = 3 \<or> d = 4 \<or> d = 5 \<or> d = 6 \<or> d = 7 \<or> d = 8
     \<or> d = (9::nat)"
  by arith

lemma decimal_digit:
  assumes "d < 10"
  shows "(of_char (''0123456789'' ! d) :: nat) = 48 + d"
    and "''0123456789'' ! d \<noteq> CHR ''-''"
  using below_10_cases [OF assms] by auto

lemma formatDecimal_unfold:
  "n < 10 \<Longrightarrow> formatDecimal n = [''0123456789'' ! n]"
  "\<not> n < 10 \<Longrightarrow> formatDecimal n = formatDecimal (n div 10) @ [''0123456789'' ! (n mod 10)]"
  by (subst formatDecimal.simps, simp)+

declare formatDecimal.simps [simp del]

lemma formatDecimal_no_dash: "CHR ''-'' \<notin> set (formatDecimal n)"
proof (induction n rule: formatDecimal.induct)
  case (1 n)
  show ?case
  proof (cases "n < 10")
    case True
    then show ?thesis using decimal_digit(2) [of n] by (simp add: formatDecimal_unfold)
  next
    case False
    have "n mod 10 < 10" by simp
    from decimal_digit(2) [OF this] False "1.IH" show ?thesis
      by (simp add: formatDecimal_unfold)
  qed
qed

lemma formatDecimal_not_Nil [simp]: "formatDecimal n \<noteq> []"
  by (cases "n < 10") (simp_all add: formatDecimal_unfold)

lemma parseUintLoop_digit:
  assumes "d < 10" and "n * 10 + d \<le> maxUint64"
  shows "parseUintLoop n ((''0123456789'' ! d) # cs) = parseUintLoop (n * 10 + d) cs"
proof -
  from assms(2) have "n < maxUint64 div 10 + 1" by (simp add: maxUint64_def)
  moreover have "(of_char (''0123456789'' ! d) :: nat) = 48 + d"
    by (rule decimal_digit(1) [OF assms(1)])
  ultimately show ?thesis
    using assms by (simp only: parseUintLoop.simps Let_def) simp
qed

lemma parseUintLoop_formatDecimal:
  "n * 10 ^ length (formatDecimal k) + k \<le> maxUint64 \<Longrightarrow>
   parseUintLoop n (formatDecimal k @ cs) =
     parseUintLoop (n * 10 ^ length (formatDecimal k) + k) cs"
proof (induction k arbitrary: n cs rule: formatDecimal.induct)
  case (1 k)
  show ?case
  proof (cases "k < 10")
    case True
    with "1.prems" show ?thesis
      using parseUintLoop_digit [of k n cs] by (simp add: formatDecimal_unfold)
  next
    case False
    let ?l = "length (formatDecimal (k div 10))"
    let ?m = "n * 10 ^ ?l + k div 10"
    from False have len: "length (formatDecimal k) = Suc ?l"
      by (simp add: formatDecimal_unfold)
    from False have fmt: "formatDecimal k = formatDecimal (k div 10) @ [''0123456789'' ! (k mod 10)]"
      by (simp add: formatDecimal_unfold)
    have split: "n * 10 ^ Suc ?l + k = ?m * 10 + k mod 10"
      by (simp add: algebra_simps)
    from "1.prems" have bound: "?m * 10 + k mod 10 \<le> maxUint64"
      by (simp only: len split)
    have "?m \<le> ?m * 10 + k mod 10" by simp
    from this bound have small: "?m \<le> maxUint64" by (rule order_trans)
    have "parseUintLoop n (formatDecimal k @ cs) =
        parseUintLoop n (formatDecimal (k div 10) @ (''0123456789'' ! (k mod 10)) # cs)"
      by (subst fmt) simp
    also have "\<dots> = parseUintLoop ?m ((''0123456789'' ! (k mod 10)) # cs)"
      by (rule "1.IH" [OF False small])
    also have "\<dots> = parseUintLoop (?m * 10 + k mod 10) cs"
      using bound by (intro parseUintLoop_digit) simp_all
    also have "?m * 10 + k mod 10 = n * 10 ^ length (formatDecimal k) + k"
      by (simp only: len split)
    finally show ?thesis .
  qed
qed

lemma ParseUint_FormatUint [simp]: "ParseUint (FormatUint b) = (b, None)"
proof -
  have "unat b < 2 ^ 64" using unsigned_less [of b] by simp
  then have "0 * 10 ^ length (formatDecimal (unat b)) + unat b \<le> maxUint64"
    by (simp add: maxUint64_def)
  from parseUintLoop_formatDecimal [OF this, of "[]"] show ?thesis
    by (simp add: ParseUint_def FormatUint_def)
qed

lemma FormatUint_no_dash: "CHR ''-'' \<notin> set (FormatUint b)"
  by (simp add: FormatUint_def formatDecimal_no_dash)

lemma Split_no_sep: "sep \<notin> set s \<Longrightarrow> Split s sep = [s]"
  by (induction s) auto

lemma Split_append_sep:
  "sep \<notin> set xs \<Longrightarrow> Split (xs @ sep # ys) sep = xs # Split ys sep"
  by (induction xs) auto

lemma Split_eventKeyOf [simp]:
  "Split (eventKeyOf h a b) CHR ''-'' = [Hex h a, FormatUint b]"
  using Split_append_sep [OF Hex_no_dash, of h a "FormatUint b"]
  by (simp add: eventKeyOf_def Split_no_sep FormatUint_no_dash)

lemma eventKeyOf_inject [simp]:
  "eventKeyOf h a b = eventKeyOf h a' b' \<longleftrightarrow> a = a' \<and> b = b'"
proof
  assume eq: "eventKeyOf h a b = eventKeyOf h a' b'"
  then have "Split (eventKeyOf h a b) CHR ''-'' = Split (eventKeyOf h a' b') CHR ''-''" by simp
  then have "Hex h a = Hex h a'" and "FormatUint b = FormatUint b'" by simp_all
  then have "HexToAddress (Hex h a) = HexToAddress (Hex h a')"
    and "ParseUint (FormatUint b) = ParseUint (FormatUint b')" by simp_all
  then show "a = a' \<and> b = b'" by simp
qed simp

section \<open>Properties of the forward-APY calculator\<close>

subsection \<open>The loops\<close>

lemma debtRatioLoop_sum:
  "fst (debtRatioLoop oracle ss acc calls) =
     acc + (\<Sum>s \<leftarrow> filter (\<lambda>s. hasDebtRatio s \<and> querySucceeds oracle s) ss.
              strategyAPR oracle s * debtShare s * feeFactor s)"
proof (induction ss arbitrary: acc calls)
  case Nil
  show ?case by simp
next
  case (Cons s ss)
  show ?case
  proof (cases "LastDebtRatio s = None \<or> LastDebtRatio s = Some 0")
    case True
    then have "\<not> hasDebtRatio s" by (auto simp: hasDebtRatio_def)
    with True Cons show ?thesis by simp
  next
    case False
    then obtain d where d: "LastDebtRatio s = Some d" "d \<noteq> 0" by auto
    then have h: "hasDebtRatio s" by (simp add: hasDebtRatio_def)
    show ?thesis
    proof (cases "GetStrategyApr oracle (StrategyAddress s) 0")
      case (Inl err)
      then have "\<not> querySucceeds oracle s" by (simp add: querySucceeds_def)
      with False Inl Cons show ?thesis by simp
    next
      case (Inr e)
      then have q: "querySucceeds oracle s" by (simp add: querySucceeds_def)
      from Inr d h q Cons show ?thesis
        by (simp add: Let_def strategyAPR_def debtShare_def feeFactor_def ToNormalizedAmount_def)
    qed
  qed
qed

lemma emptyVaultLoop_find:
  "emptyVaultLoop oracle ss acc calls =
     (case find (querySucceeds oracle) ss of
        None \<Rightarrow> (acc, calls @ map strategyCall ss)
      | Some s \<Rightarrow>
          ((acc + strategyAPR oracle s * feeFactor s) * (9 / 10),
           calls @ map strategyCall (takeWhile (\<lambda>s. \<not> querySucceeds oracle s) ss)
             @ [strategyCall s]))"
proof (induction ss arbitrary: calls)
  case Nil
  show ?case by simp
next
  case (Cons s ss)
  show ?case
  proof (cases "GetStrategyApr oracle (StrategyAddress s) 0")
    case (Inl err)
    then have "\<not> querySucceeds oracle s" by (simp add: querySucceeds_def)
    with Inl Cons show ?thesis by (simp add: strategyCall_def split: option.splits)
  next
    case (Inr e)
    then have "querySucceeds oracle s" by (simp add: querySucceeds_def)
    with Inr show ?thesis
      by (simp add: strategyCall_def strategyAPR_def feeFactor_def Let_def)
  qed
qed

lemma emptyVaultLoop_debt_blind:
  "emptyVaultLoop oracle (map (\<lambda>s. s\<lparr>LastDebtRatio := d s\<rparr>) ss) acc calls =
   emptyVaultLoop oracle ss acc calls"
  by (induction ss arbitrary: calls) (auto split: sum.splits)

text \<open>Neither loop makes a \<^verbatim>\<open>GetCurrentApr\<close> call.\<close>

lemma emptyVaultLoop_calls:
  "filter isCallGetCurrentApr (snd (emptyVaultLoop oracle ss acc calls)) =
   filter isCallGetCurrentApr calls"
  by (induction ss arbitrary: calls) (auto split: sum.splits simp: Let_def)

lemma debtRatioLoop_calls:
  "filter isCallGetCurrentApr (snd (debtRatioLoop oracle ss acc calls)) =
   filter isCallGetCurrentApr calls"
  by (induction ss arbitrary: acc calls) (auto split: sum.splits simp: Let_def)

lemma computeDebtRatioAPR_calls:
  "filter isCallGetCurrentApr (snd (computeDebtRatioAPR oracle vault ss calls)) =
   filter isCallGetCurrentApr calls"
  by (simp add: computeDebtRatioAPR_def emptyVaultLoop_calls debtRatioLoop_calls split_beta
      del: emptyVaultLoop.simps debtRatioLoop.simps)

lemma oracleAPRResolution_calls:
  "snd (oracleAPRResolution oracle a calls) =
     calls @ [CallGetStrategyApr a 0] @
       (if strategyAprUnusable oracle a then [CallGetCurrentApr a] else [])"
  by (auto simp: oracleAPRResolution_def strategyAprUnusable_def Let_def split: sum.splits)

text \<open>Past the three early returns, the function is its three regions in sequence.\<close>

lemma computeVaultV3ForwardAPY_ready:
  assumes "GetChain env (ChainID vault) = Some chain"
    and "APROracleContractAddress chain \<noteq> 0"
    and "NewYVaultsV3APROracleCaller env (APROracleContractAddress chain) (ChainID vault)
           = Inr caller"
  shows "computeVaultV3ForwardAPY env vault ss =
     (let r = oracleAPRResolution caller (Address vault) [];
          q = computeDebtRatioAPR caller vault ss (snd r)
      in (\<lparr>Type = ''v3:onchainOracle'',
           NetAPY = Some (convertFloatAPRToAPY
                      (if ShouldUseV2APR (Metadata vault) then fst q else fst r) 52),
           Composite = \<lparr>V3OracleCurrentAPR = Some (convertFloatAPRToAPY (fst r) 52),
                        V3OracleStratRatioAPR = Some (convertFloatAPRToAPY (fst q) 52)\<rparr>\<rparr>,
          snd q))"
  using assms by (simp add: computeVaultV3ForwardAPY_def Let_def split_beta)

lemma scenarioEnv_ready:
  "GetChain scenarioEnv 1 = Some \<lparr>APROracleContractAddress = 500\<rparr>"
  "APROracleContractAddress \<lparr>APROracleContractAddress = 500\<rparr> \<noteq> 0"
  "NewYVaultsV3APROracleCaller scenarioEnv
     (APROracleContractAddress \<lparr>APROracleContractAddress = 500\<rparr>) 1 = Inr scenarioOracle"
  by (simp_all add: scenarioEnv_def)

subsection \<open>The claims about the calculator\<close>

text \<open>
  Claim C1. For a vault of kind Multiple whose last total assets are known and not zero,
  the debt-ratio APR is nine tenths of the sum, over the strategies that have a debt ratio
  other than nil and zero and whose oracle query succeeds, of the normalized strategy APR
  times the debt ratio over 10000 times one minus the performance fee over 10000. On the
  scenario of the specification (debt ratios 6000 and 4000, fees 1000 and 2000, APRs 0.10
  and 0.08) the value before compounding is 0.07164.
\<close>

theorem debtRatioAPR_weighted_sum:
  "(Kind vault = VaultKindMultiple \<longrightarrow> LastTotalAssets vault = Some a \<longrightarrow> a \<noteq> 0 \<longrightarrow>
      fst (computeDebtRatioAPR caller vault ss calls) =
        9 / 10 * (\<Sum>s \<leftarrow> filter (\<lambda>s. hasDebtRatio s \<and> querySucceeds caller s) ss.
                   strategyAPR caller s * debtShare s * feeFactor s))
   \<and> fst (computeDebtRatioAPR scenarioOracle scenarioVault scenarioStrategies []) =
       7164 / 100000"
proof (intro conjI impI)
  assume "Kind vault = VaultKindMultiple" "LastTotalAssets vault = Some a" "a \<noteq> 0"
  then show "fst (computeDebtRatioAPR caller vault ss calls) =
      9 / 10 * (\<Sum>s \<leftarrow> filter (\<lambda>s. hasDebtRatio s \<and> querySucceeds caller s) ss.
                 strategyAPR caller s * debtShare s * feeFactor s)"
    using debtRatioLoop_sum [of caller ss 0 calls]
    by (simp add: computeDebtRatioAPR_def split_beta)
next
  show "fst (computeDebtRatioAPR scenarioOracle scenarioVault scenarioStrategies []) =
      7164 / 100000"
    by (simp add: computeDebtRatioAPR_def scenarioOracle_def scenarioVault_def
        scenarioStrategies_def ToNormalizedAmount_def Let_def)
qed

text \<open>
  The theorem at a list of four strategies, two of them unanswered by the oracle: the
  sum ranges over the two others.
\<close>

theorem debtRatioAPR_weighted_sum_witness:
  "fst (computeDebtRatioAPR scenarioOracle scenarioVault
          (unreachableStrategies @ scenarioStrategies) []) =
     9 / 10 * (1 / 10 * (6000 / 10000) * (1 - 1000 / 10000)
               + 8 / 100 * (4000 / 10000) * (1 - 2000 / 10000))"
  using debtRatioAPR_weighted_sum [where vault = scenarioVault and a = 1000
      and caller = scenarioOracle and ss = "unreachableStrategies @ scenarioStrategies"
      and calls = "[]"]
  by (simp add: scenarioVault_def scenarioOracle_def unreachableStrategies_def
      scenarioStrategies_def hasDebtRatio_def querySucceeds_def strategyAPR_def debtShare_def
      feeFactor_def ToNormalizedAmount_def)

text \<open>
  Claim C2, as amended. For a vault of kind Multiple whose last total assets are nil or zero,
  the loop queries the strategies in iteration order until one query succeeds. If one does,
  the debt-ratio APR is that single strategy's normalized APR times one minus its
  performance fee over 10000 times 0.9, and no strategy after it is queried; if every
  query fails (or there is no strategy) the debt-ratio APR is zero.
\<close>

theorem emptyVault_first_answering_strategy:
  "Kind vault = VaultKindMultiple \<Longrightarrow>
   LastTotalAssets vault = None \<or> LastTotalAssets vault = Some 0 \<Longrightarrow>
   computeDebtRatioAPR caller vault ss calls =
     (case find (querySucceeds caller) ss of
        None \<Rightarrow> (0, calls @ map strategyCall ss)
      | Some s \<Rightarrow>
          (strategyAPR caller s * feeFactor s * (9 / 10),
           calls @ map strategyCall (takeWhile (\<lambda>s. \<not> querySucceeds caller s) ss)
             @ [strategyCall s]))"
  by (cases ss)
    (auto simp: computeDebtRatioAPR_def emptyVaultLoop_find [of caller _ 0 calls]
      simp del: emptyVaultLoop.simps split: option.splits)

theorem emptyVault_first_answering_strategy_witness:
  "computeDebtRatioAPR scenarioOracle emptyVault (unreachableStrategies @ scenarioStrategies) [] =
     (81 / 1000, [CallGetStrategyApr 3 0, CallGetStrategyApr 4 0, CallGetStrategyApr 1 0])"
  using emptyVault_first_answering_strategy [where vault = emptyVault
      and caller = scenarioOracle and ss = "unreachableStrategies @ scenarioStrategies"
      and calls = "[]"]
  by (simp add: emptyVault_def scenarioVault_def unreachableStrategies_def
      scenarioStrategies_def scenarioOracle_def querySucceeds_def strategyCall_def
      strategyAPR_def feeFactor_def ToNormalizedAmount_def)

text \<open>
  Claim C2 as stated fails: the vault is of kind Multiple, its total assets are nil and its
  strategy set is not empty, but both queries fail, and the debt-ratio APR (zero) is the
  fee-adjusted, haircut APR of no strategy of the set.
\<close>

theorem emptyVault_exactly_one_counterexample:
  "\<not> (\<exists>s expected. s \<in> set unreachableStrategies \<and>
         GetStrategyApr scenarioOracle (StrategyAddress s) 0 = Inr expected \<and>
         fst (computeDebtRatioAPR scenarioOracle emptyVault unreachableStrategies []) =
           ToNormalizedAmount expected 18
             * (1 - real_of_int (LastPerformanceFee s) / 10000) * (9 / 10))"
  by (auto simp: unreachableStrategies_def scenarioOracle_def)

text \<open>
  Claim C3. Past the early returns, a \<^verbatim>\<open>GetCurrentApr\<close> call appears among the oracle calls
  of the function if and only if the first \<^verbatim>\<open>GetStrategyApr\<close> call failed or its normalized
  answer is zero. A nonzero answer, normalized at 18 decimals, is the oracle APR, and
  \<^verbatim>\<open>GetCurrentApr\<close> is not called. If both calls fail the oracle APR is zero, and the
  function still answers an ordinary result.
\<close>

theorem oracle_fallback_ordering:
  assumes "GetChain env (ChainID vault) = Some chain"
    and "APROracleContractAddress chain \<noteq> 0"
    and "NewYVaultsV3APROracleCaller env (APROracleContractAddress chain) (ChainID vault)
           = Inr caller"
  shows "(list_ex isCallGetCurrentApr (snd (computeVaultV3ForwardAPY env vault ss)) \<longleftrightarrow>
            (\<exists>err. GetStrategyApr caller (Address vault) 0 = Inl err) \<or>
            (\<exists>expected. GetStrategyApr caller (Address vault) 0 = Inr expected \<and>
               ToNormalizedAmount expected 18 = 0))
       \<and> (GetStrategyApr caller (Address vault) 0 = Inr expected \<longrightarrow> expected \<noteq> 0 \<longrightarrow>
             oracleAPRResolution caller (Address vault) [] =
               (ToNormalizedAmount expected 18, [CallGetStrategyApr (Address vault) 0]) \<and>
             \<not> list_ex isCallGetCurrentApr (snd (computeVaultV3ForwardAPY env vault ss)))
       \<and> (GetStrategyApr caller (Address vault) 0 = Inl err \<longrightarrow>
             GetCurrentApr caller (Address vault) = Inl err' \<longrightarrow>
             fst (oracleAPRResolution caller (Address vault) []) = 0 \<and>
             Type (fst (computeVaultV3ForwardAPY env vault ss)) = ''v3:onchainOracle'' \<and>
             V3OracleCurrentAPR (Composite (fst (computeVaultV3ForwardAPY env vault ss)))
               = Some 0)"
proof -
  let ?r = "oracleAPRResolution caller (Address vault) []"
  let ?calls = "snd (computeVaultV3ForwardAPY env vault ss)"
  have calls: "filter isCallGetCurrentApr ?calls =
      (if strategyAprUnusable caller (Address vault) then [CallGetCurrentApr (Address vault)]
       else [])"
    by (simp add: computeVaultV3ForwardAPY_ready [OF assms] Let_def computeDebtRatioAPR_calls
        oracleAPRResolution_calls)
  have ex: "list_ex isCallGetCurrentApr ?calls \<longleftrightarrow> strategyAprUnusable caller (Address vault)"
  proof -
    have "list_ex isCallGetCurrentApr ?calls \<longleftrightarrow> filter isCallGetCurrentApr ?calls \<noteq> []"
      by (simp add: list_ex_iff filter_empty_conv)
    then show ?thesis by (simp add: calls)
  qed
  have un: "strategyAprUnusable caller (Address vault) \<longleftrightarrow>
      (\<exists>err. GetStrategyApr caller (Address vault) 0 = Inl err) \<or>
      (\<exists>expected. GetStrategyApr caller (Address vault) 0 = Inr expected \<and>
         ToNormalizedAmount expected 18 = 0)"
    by (simp add: strategyAprUnusable_def split: sum.splits)
  have nz: "\<not> strategyAprUnusable caller (Address vault) \<and>
      ?r = (ToNormalizedAmount expected 18, [CallGetStrategyApr (Address vault) 0])"
    if "GetStrategyApr caller (Address vault) 0 = Inr expected" "expected \<noteq> 0"
    using that by (simp add: strategyAprUnusable_def oracleAPRResolution_def ToNormalizedAmount_def)
  have both: "fst ?r = 0"
    if "GetStrategyApr caller (Address vault) 0 = Inl err"
      "GetCurrentApr caller (Address vault) = Inl err'"
    using that by (simp add: oracleAPRResolution_def)
  show ?thesis
    using ex un nz both
    by (auto simp: computeVaultV3ForwardAPY_ready [OF assms] Let_def convertFloatAPRToAPY_def)
qed

text \<open>
  The theorem at the scenario vault (address 100: both calls fail) and at a vault at
  address 1, where the first call answers 0.10.
\<close>

theorem oracle_fallback_ordering_witness:
  "list_ex isCallGetCurrentApr
      (snd (computeVaultV3ForwardAPY scenarioEnv scenarioVault scenarioStrategies))
   \<and> V3OracleCurrentAPR
        (Composite (fst (computeVaultV3ForwardAPY scenarioEnv scenarioVault scenarioStrategies)))
       = Some 0
   \<and> oracleAPRResolution scenarioOracle 1 [] = (1 / 10, [CallGetStrategyApr 1 0])
   \<and> \<not> list_ex isCallGetCurrentApr
        (snd (computeVaultV3ForwardAPY scenarioEnv (scenarioVault\<lparr>Address := 1\<rparr>)
           scenarioStrategies))"
proof -
  have v: "ChainID scenarioVault = 1" "Address scenarioVault = 100"
    "ChainID (scenarioVault\<lparr>Address := 1\<rparr>) = 1" "Address (scenarioVault\<lparr>Address := 1\<rparr>) = 1"
    by (simp_all add: scenarioVault_def)
  have o: "GetStrategyApr scenarioOracle 100 0 = Inl ''unsupported''"
    "GetCurrentApr scenarioOracle 100 = Inl ''unsupported''"
    "GetStrategyApr scenarioOracle 1 0 = Inr (10 ^ 17)"
    by (simp_all add: scenarioOracle_def)
  note fails = oracle_fallback_ordering [where env = scenarioEnv and vault = scenarioVault
      and ss = scenarioStrategies and caller = scenarioOracle and expected = 1
      and err = "''unsupported''" and err' = "''unsupported''", unfolded v,
      OF scenarioEnv_ready]
  note answers = oracle_fallback_ordering [where env = scenarioEnv
      and vault = "scenarioVault\<lparr>Address := 1\<rparr>" and ss = scenarioStrategies
      and caller = scenarioOracle and expected = "10 ^ 17"
      and err = "''unsupported''" and err' = "''unsupported''", unfolded v,
      OF scenarioEnv_ready]
  show ?thesis
    using fails answers by (simp add: o ToNormalizedAmount_def)
qed

text \<open>
  Claim C5. If the chain is unknown, or its oracle contract address is the zero address, or
  the oracle client cannot be constructed, the function answers the zero-valued result and
  has made no oracle call.
\<close>

theorem unavailable_oracle_returns_empty:
  "GetChain env (ChainID vault) = None
   \<or> (\<exists>chain. GetChain env (ChainID vault) = Some chain \<and>
         (APROracleContractAddress chain = 0
          \<or> (\<exists>err. NewYVaultsV3APROracleCaller env (APROracleContractAddress chain)
                       (ChainID vault) = Inl err))) \<Longrightarrow>
   computeVaultV3ForwardAPY env vault ss = (emptyTForwardAPY, [])"
  by (auto simp: computeVaultV3ForwardAPY_def Let_def)

text \<open>The theorem on chain 7 (unknown), chain 10 (no oracle) and chain 250 (no client).\<close>

theorem unavailable_oracle_returns_empty_witness:
  "computeVaultV3ForwardAPY scenarioEnv (scenarioVault\<lparr>ChainID := 7\<rparr>) scenarioStrategies
     = (emptyTForwardAPY, [])
   \<and> computeVaultV3ForwardAPY scenarioEnv (scenarioVault\<lparr>ChainID := 10\<rparr>) scenarioStrategies
     = (emptyTForwardAPY, [])
   \<and> computeVaultV3ForwardAPY scenarioEnv (scenarioVault\<lparr>ChainID := 250\<rparr>) scenarioStrategies
     = (emptyTForwardAPY, [])"
  using unavailable_oracle_returns_empty [of scenarioEnv "scenarioVault\<lparr>ChainID := 7\<rparr>"
      scenarioStrategies]
    unavailable_oracle_returns_empty [of scenarioEnv "scenarioVault\<lparr>ChainID := 10\<rparr>"
      scenarioStrategies]
    unavailable_oracle_returns_empty [of scenarioEnv "scenarioVault\<lparr>ChainID := 250\<rparr>"
      scenarioStrategies]
  by (simp add: scenarioEnv_def)

text \<open>
  Claim C6. Past the early returns, the net APY is the compounded debt-ratio APR when the
  vault's \<^verbatim>\<open>ShouldUseV2APR\<close> flag is set and the compounded oracle APR otherwise, and the
  composite carries the compounded oracle APR and the compounded debt-ratio APR either way.
\<close>

theorem primary_selection:
  assumes "GetChain env (ChainID vault) = Some chain"
    and "APROracleContractAddress chain \<noteq> 0"
    and "NewYVaultsV3APROracleCaller env (APROracleContractAddress chain) (ChainID vault)
           = Inr caller"
    and "oracleAPRResolution caller (Address vault) [] = (oracleAPR, calls)"
    and "computeDebtRatioAPR caller vault ss calls = (debtRatioAPR, calls')"
  shows "NetAPY (fst (computeVaultV3ForwardAPY env vault ss)) =
           Some (convertFloatAPRToAPY
                   (if ShouldUseV2APR (Metadata vault) then debtRatioAPR else oracleAPR) 52)
       \<and> Composite (fst (computeVaultV3ForwardAPY env vault ss)) =
           \<lparr>V3OracleCurrentAPR = Some (convertFloatAPRToAPY oracleAPR 52),
            V3OracleStratRatioAPR = Some (convertFloatAPRToAPY debtRatioAPR 52)\<rparr>"
  using assms by (simp add: computeVaultV3ForwardAPY_def)

lemma scenario_regions:
  "oracleAPRResolution scenarioOracle 100 [] =
     (0, [CallGetStrategyApr 100 0, CallGetCurrentApr 100])"
  "computeDebtRatioAPR scenarioOracle scenarioVault scenarioStrategies
       [CallGetStrategyApr 100 0, CallGetCurrentApr 100] =
     (7164 / 100000, [CallGetStrategyApr 100 0, CallGetCurrentApr 100,
                      CallGetStrategyApr 1 0, CallGetStrategyApr 2 0])"
  "computeDebtRatioAPR scenarioOracle (scenarioVault\<lparr>Metadata := \<lparr>ShouldUseV2APR = False\<rparr>\<rparr>)
       scenarioStrategies [CallGetStrategyApr 100 0, CallGetCurrentApr 100] =
     (7164 / 100000, [CallGetStrategyApr 100 0, CallGetCurrentApr 100,
                      CallGetStrategyApr 1 0, CallGetStrategyApr 2 0])"
  by (simp_all add: oracleAPRResolution_def computeDebtRatioAPR_def scenarioOracle_def
      scenarioVault_def scenarioStrategies_def ToNormalizedAmount_def Let_def)

text \<open>The theorem at the scenario vault, with the flag set and with the flag cleared.\<close>

theorem primary_selection_witness:
  "NetAPY (fst (computeVaultV3ForwardAPY scenarioEnv scenarioVault scenarioStrategies)) =
     Some (convertFloatAPRToAPY (7164 / 100000) 52)
   \<and> NetAPY (fst (computeVaultV3ForwardAPY scenarioEnv
        (scenarioVault\<lparr>Metadata := \<lparr>ShouldUseV2APR = False\<rparr>\<rparr>) scenarioStrategies)) =
     Some (convertFloatAPRToAPY 0 52)
   \<and> Composite (fst (computeVaultV3ForwardAPY scenarioEnv
        (scenarioVault\<lparr>Metadata := \<lparr>ShouldUseV2APR = False\<rparr>\<rparr>) scenarioStrategies)) =
     \<lparr>V3OracleCurrentAPR = Some (convertFloatAPRToAPY 0 52),
      V3OracleStratRatioAPR = Some (convertFloatAPRToAPY (7164 / 100000) 52)\<rparr>"
proof -
  let ?v = "scenarioVault\<lparr>Metadata := \<lparr>ShouldUseV2APR = False\<rparr>\<rparr>"
  have v: "ChainID scenarioVault = 1" "Address scenarioVault = 100"
    "ChainID ?v = 1" "Address ?v = 100"
    "ShouldUseV2APR (Metadata scenarioVault)" "\<not> ShouldUseV2APR (Metadata ?v)"
    by (simp_all add: scenarioVault_def)
  note set = primary_selection [where env = scenarioEnv and vault = scenarioVault
      and ss = scenarioStrategies and caller = scenarioOracle, unfolded v,
      OF scenarioEnv_ready scenario_regions(1) scenario_regions(2)]
  note cleared = primary_selection [where env = scenarioEnv and vault = ?v
      and ss = scenarioStrategies and caller = scenarioOracle, unfolded v,
      OF scenarioEnv_ready scenario_regions(1) scenario_regions(3)]
  show ?thesis using set cleared by (simp add: v)
qed

text \<open>
  Claim C7. Each of the three reported values is the conversion of its APR with 52 periods,
  the conversion is \<open>(1 + APR/52)^52 - 1\<close>, and it is strictly increasing in the APR above
  \<open>-52\<close>.
\<close>

theorem apr_to_apy_conversion:
  assumes "GetChain env (ChainID vault) = Some chain"
    and "APROracleContractAddress chain \<noteq> 0"
    and "NewYVaultsV3APROracleCaller env (APROracleContractAddress chain) (ChainID vault)
           = Inr caller"
    and "oracleAPRResolution caller (Address vault) [] = (oracleAPR, calls)"
    and "computeDebtRatioAPR caller vault ss calls = (debtRatioAPR, calls')"
  shows "fst (computeVaultV3ForwardAPY env vault ss) =
           \<lparr>Type = ''v3:onchainOracle'',
            NetAPY = Some ((1 + (if ShouldUseV2APR (Metadata vault) then debtRatioAPR
                                 else oracleAPR) / 52) ^ 52 - 1),
            Composite = \<lparr>V3OracleCurrentAPR = Some ((1 + oracleAPR / 52) ^ 52 - 1),
                         V3OracleStratRatioAPR = Some ((1 + debtRatioAPR / 52) ^ 52 - 1)\<rparr>\<rparr>
       \<and> convertFloatAPRToAPY x 52 = (1 + x / 52) ^ 52 - 1
       \<and> (- 52 < x \<longrightarrow> x < y \<longrightarrow> convertFloatAPRToAPY x 52 < convertFloatAPRToAPY y 52)"
proof (intro conjI impI)
  show "fst (computeVaultV3ForwardAPY env vault ss) =
           \<lparr>Type = ''v3:onchainOracle'',
            NetAPY = Some ((1 + (if ShouldUseV2APR (Metadata vault) then debtRatioAPR
                                 else oracleAPR) / 52) ^ 52 - 1),
            Composite = \<lparr>V3OracleCurrentAPR = Some ((1 + oracleAPR / 52) ^ 52 - 1),
                         V3OracleStratRatioAPR = Some ((1 + debtRatioAPR / 52) ^ 52 - 1)\<rparr>\<rparr>"
    using assms by (simp add: computeVaultV3ForwardAPY_def convertFloatAPRToAPY_def)
next
  show "convertFloatAPRToAPY x 52 = (1 + x / 52) ^ 52 - 1"
    by (simp add: convertFloatAPRToAPY_def)
next
  assume "- 52 < x" and "x < y"
  then have "0 \<le> 1 + x / 52" and "1 + x / 52 < 1 + y / 52" by simp_all
  then have "(1 + x / 52) ^ 52 < (1 + y / 52) ^ 52"
    by (intro power_strict_mono) simp_all
  then show "convertFloatAPRToAPY x 52 < convertFloatAPRToAPY y 52"
    by (simp add: convertFloatAPRToAPY_def)
qed

text \<open>The theorem at the scenario vault, and at the APRs \<open>-51\<close> and \<open>0\<close>.\<close>

theorem apr_to_apy_conversion_witness:
  "fst (computeVaultV3ForwardAPY scenarioEnv scenarioVault scenarioStrategies) =
     \<lparr>Type = ''v3:onchainOracle'',
      NetAPY = Some ((1 + (7164 / 100000) / 52) ^ 52 - 1),
      Composite = \<lparr>V3OracleCurrentAPR = Some ((1 + 0 / 52) ^ 52 - 1),
                   V3OracleStratRatioAPR = Some ((1 + (7164 / 100000) / 52) ^ 52 - 1)\<rparr>\<rparr>
   \<and> convertFloatAPRToAPY (- 51) 52 < convertFloatAPRToAPY 0 52"
proof -
  have v: "ChainID scenarioVault = 1" "Address scenarioVault = 100"
    "ShouldUseV2APR (Metadata scenarioVault) = True"
    by (simp_all add: scenarioVault_def)
  note at = apr_to_apy_conversion [where env = scenarioEnv and vault = scenarioVault
      and ss = scenarioStrategies and caller = scenarioOracle and x = "- 51" and y = 0,
      unfolded v, OF scenarioEnv_ready scenario_regions(1) scenario_regions(2)]
  show ?thesis using at by (simp add: v)
qed

text \<open>
  Claim C10. For a vault of kind Multiple whose last total assets are nil or zero, the
  debt-ratio APR and the oracle calls do not depend on any strategy's debt ratio: replacing
  the debt ratios by arbitrary ones changes nothing. A first strategy whose query succeeds
  contributes its fee-adjusted APR times 0.9 whatever its debt ratio, nil and zero included.
  When the total assets are known and not zero, a strategy whose debt ratio is nil or zero
  is skipped.
\<close>

theorem emptyVault_ignores_debt_ratio:
  "Kind vault = VaultKindMultiple \<Longrightarrow>
   LastTotalAssets vault = None \<or> LastTotalAssets vault = Some 0 \<Longrightarrow>
   computeDebtRatioAPR caller vault (map (\<lambda>s. s\<lparr>LastDebtRatio := d s\<rparr>) ss) calls =
     computeDebtRatioAPR caller vault ss calls
   \<and> (GetStrategyApr caller (StrategyAddress strategy) 0 = Inr expected \<longrightarrow>
        fst (computeDebtRatioAPR caller vault (strategy # rest) calls) =
          ToNormalizedAmount expected 18
            * (1 - real_of_int (LastPerformanceFee strategy) / 10000) * (9 / 10))
   \<and> (\<not> hasDebtRatio strategy \<longrightarrow>
        computeDebtRatioAPR caller (vault\<lparr>LastTotalAssets := Some 1000\<rparr>) (strategy # rest) calls =
        computeDebtRatioAPR caller (vault\<lparr>LastTotalAssets := Some 1000\<rparr>) rest calls)"
proof (intro conjI impI)
  assume k: "Kind vault = VaultKindMultiple"
    and e: "LastTotalAssets vault = None \<or> LastTotalAssets vault = Some 0"
  from k e show "computeDebtRatioAPR caller vault (map (\<lambda>s. s\<lparr>LastDebtRatio := d s\<rparr>) ss) calls =
      computeDebtRatioAPR caller vault ss calls"
    by (auto simp: computeDebtRatioAPR_def emptyVaultLoop_debt_blind
        simp del: emptyVaultLoop.simps)
  {
    assume "GetStrategyApr caller (StrategyAddress strategy) 0 = Inr expected"
    with k e show "fst (computeDebtRatioAPR caller vault (strategy # rest) calls) =
        ToNormalizedAmount expected 18
          * (1 - real_of_int (LastPerformanceFee strategy) / 10000) * (9 / 10)"
      by (auto simp: computeDebtRatioAPR_def Let_def)
  }
  {
    assume "\<not> hasDebtRatio strategy"
    then have "LastDebtRatio strategy = None \<or> LastDebtRatio strategy = Some 0"
      by (simp add: hasDebtRatio_def split: option.splits)
    then show "computeDebtRatioAPR caller (vault\<lparr>LastTotalAssets := Some 1000\<rparr>) (strategy # rest) calls =
        computeDebtRatioAPR caller (vault\<lparr>LastTotalAssets := Some 1000\<rparr>) rest calls"
      by (auto simp: computeDebtRatioAPR_def)
  }
qed

text \<open>
  The theorem at the empty scenario vault: the scenario strategies with their debt ratios
  set to nil give the same answer, and a strategy with a nil debt ratio gives 0.10 times
  0.9 times 0.9; with 1000 of total assets that strategy contributes nothing.
\<close>

theorem emptyVault_ignores_debt_ratio_witness:
  "computeDebtRatioAPR scenarioOracle emptyVault
      (map (\<lambda>s. s\<lparr>LastDebtRatio := None\<rparr>) scenarioStrategies) [] =
    computeDebtRatioAPR scenarioOracle emptyVault scenarioStrategies []
   \<and> fst (computeDebtRatioAPR scenarioOracle emptyVault
        [\<lparr>StrategyAddress = 1, LastDebtRatio = None, LastPerformanceFee = 1000\<rparr>] []) = 81 / 1000
   \<and> fst (computeDebtRatioAPR scenarioOracle scenarioVault
        [\<lparr>StrategyAddress = 1, LastDebtRatio = None, LastPerformanceFee = 1000\<rparr>] []) = 0"
  using emptyVault_ignores_debt_ratio [where vault = emptyVault and caller = scenarioOracle
      and d = "\<lambda>s. None" and ss = scenarioStrategies and calls = "[]" and rest = "[]"
      and expected = "10 ^ 17"
      and strategy = "\<lparr>StrategyAddress = 1, LastDebtRatio = None, LastPerformanceFee = 1000\<rparr>"]
  by (simp add: emptyVault_def scenarioVault_def scenarioOracle_def ToNormalizedAmount_def
      hasDebtRatio_def computeDebtRatioAPR_def)

section \<open>Properties of the shared map and of the reshape\<close>

subsection \<open>Keys and block numbers\<close>

lemma taskStep_round:
  "taskStep w c m (Iterating a (entry # rest)) =
     (if IterationError entry \<noteq> None then (m, Iterating a rest)
      else (m, Storing a (eventKeyOf (HashNibbleHigh w) a (RawBlockNumber (Raw (Event entry))))
                 (loaded m (eventKeyOf (HashNibbleHigh w) a (RawBlockNumber (Raw (Event entry))))
                    @ [blockDataOf entry]) rest))"
  by (simp add: eventKeyOf_def blockDataOf_def loaded_def Let_def split: option.splits)

declare taskStep.simps(3) [simp del]

lemma BlockNumber_blockDataOf [simp]:
  "BlockNumber (blockDataOf entry) = RawBlockNumber (Raw (Event entry))"
  by (simp add: blockDataOf_def)

lemma keyedRecords_append:
  "keyedRecords h (eventKeyOf h a b) recs \<Longrightarrow> BlockNumber r = b \<Longrightarrow>
   keyedRecords h (eventKeyOf h a b) (recs @ [r])"
  by (auto simp: keyedRecords_def)

lemma keyedRecords_single:
  "BlockNumber r = b \<Longrightarrow> keyedRecords h (eventKeyOf h a b) [r]"
  by (auto simp: keyedRecords_def)

lemma taskStep_keyed:
  assumes "allKeyed (HashNibbleHigh w) m" and "taskKeyed (HashNibbleHigh w) t"
    and "taskStep w c m t = (m', t')"
  shows "allKeyed (HashNibbleHigh w) m' \<and> taskKeyed (HashNibbleHigh w) t'"
proof (cases t)
  case (Fetching a opts)
  with assms show ?thesis by (auto split: sum.splits)
next
  case (Iterating a logIter)
  show ?thesis
  proof (cases logIter)
    case Nil
    with Iterating assms show ?thesis by auto
  next
    case (Cons entry rest)
    let ?k = "eventKeyOf (HashNibbleHigh w) a (RawBlockNumber (Raw (Event entry)))"
    have "keyedRecords (HashNibbleHigh w) ?k (loaded m ?k @ [blockDataOf entry])"
    proof (cases "m ?k")
      case None
      then show ?thesis by (simp add: loaded_def keyedRecords_single)
    next
      case (Some cur)
      with assms(1) have "keyedRecords (HashNibbleHigh w) ?k cur" by (simp add: allKeyed_def)
      with Some show ?thesis by (simp add: loaded_def keyedRecords_append)
    qed
    with Iterating Cons assms show ?thesis
      by (auto simp: taskStep_round split: if_splits)
  qed
next
  case (Storing a key recs rest)
  with assms show ?thesis by (auto simp: allKeyed_def split: if_splits)
next
  case Finished
  with assms show ?thesis by auto
qed

lemma scheduleStep_keyed:
  assumes "allKeyed (HashNibbleHigh w) (fst cfg)"
    and "\<forall>t \<in> set (snd cfg). taskKeyed (HashNibbleHigh w) t"
  shows "allKeyed (HashNibbleHigh w) (fst (scheduleStep w c cfg i))
       \<and> (\<forall>t \<in> set (snd (scheduleStep w c cfg i)). taskKeyed (HashNibbleHigh w) t)"
proof (cases cfg)
  case (Pair m ts)
  show ?thesis
  proof (cases "i < length ts")
    case False
    with Pair assms show ?thesis by (simp add: scheduleStep_def)
  next
    case True
    obtain m' t' where step: "taskStep w c m (ts ! i) = (m', t')" by (cases "taskStep w c m (ts ! i)")
    from True assms Pair have "taskKeyed (HashNibbleHigh w) (ts ! i)" by simp
    with assms Pair step have k: "allKeyed (HashNibbleHigh w) m'" "taskKeyed (HashNibbleHigh w) t'"
      using taskStep_keyed [of w m "ts ! i" c m' t'] by simp_all
    have "set (ts[i := t']) \<subseteq> insert t' (set ts)" by (rule set_update_subset_insert)
    with k assms Pair have "\<forall>t \<in> set (ts[i := t']). taskKeyed (HashNibbleHigh w) t" by auto
    with k True Pair step show ?thesis by (simp add: scheduleStep_def)
  qed
qed

lemma runSchedule_keyed:
  "allKeyed (HashNibbleHigh w) (fst cfg) \<Longrightarrow>
   \<forall>t \<in> set (snd cfg). taskKeyed (HashNibbleHigh w) t \<Longrightarrow>
   allKeyed (HashNibbleHigh w) (fst (runSchedule w c cfg schedule))
   \<and> (\<forall>t \<in> set (snd (runSchedule w c cfg schedule)). taskKeyed (HashNibbleHigh w) t)"
proof (induction schedule arbitrary: cfg)
  case Nil
  then show ?case by (simp add: runSchedule_def)
next
  case (Cons i schedule)
  from scheduleStep_keyed [OF Cons.prems, of c i]
  have "allKeyed (HashNibbleHigh w) (fst (runSchedule w c (scheduleStep w c cfg i) schedule))
     \<and> (\<forall>t \<in> set (snd (runSchedule w c (scheduleStep w c cfg i) schedule)).
          taskKeyed (HashNibbleHigh w) t)"
    by (intro Cons.IH) simp_all
  then show ?case by (simp add: runSchedule_def)
qed

lemma afterWait_keyed:
  "allKeyed (HashNibbleHigh w) (fst (afterWait w c vaults start end schedule))"
proof -
  have "allKeyed (HashNibbleHigh w) (fst (Map.empty, spawnTasks vaults start end))"
    by (simp add: allKeyed_def)
  moreover have "\<forall>t \<in> set (snd (Map.empty, spawnTasks vaults start end)).
      taskKeyed (HashNibbleHigh w) t"
    by (auto simp: spawnTasks_def)
  ultimately show ?thesis
    unfolding afterWait_def by (intro runSchedule_keyed [THEN conjunct1])
qed

lemma rangeVisit_eventKeyOf:
  "rangeVisit hist (eventKeyOf h a b) recs =
     Some (hist(a \<mapsto> (case hist a of None \<Rightarrow> Map.empty | Some inner \<Rightarrow> inner)(b \<mapsto> recs)))"
  by (simp add: rangeVisit_def)

lemma rangeVisit_keyed:
  assumes "keyedRecords h key recs" and "historyKeyed hist"
  shows "\<exists>hist'. rangeVisit hist key recs = Some hist' \<and> historyKeyed hist'"
proof -
  from assms(1) obtain a b where key: "key = eventKeyOf h a b"
    and recs: "\<forall>r \<in> set recs. BlockNumber r = b"
    by (auto simp: keyedRecords_def)
  let ?inner = "case hist a of None \<Rightarrow> Map.empty | Some inner \<Rightarrow> inner"
  have "historyKeyed (hist(a \<mapsto> ?inner(b \<mapsto> recs)))"
    using assms(2) recs
    by (auto simp: historyKeyed_def split: if_splits option.splits)
  then show ?thesis by (simp add: key rangeVisit_eventKeyOf)
qed

lemma Range_keyed:
  "allKeyed h m \<Longrightarrow> historyKeyed hist \<Longrightarrow>
   \<exists>hist'. RangeSyncMap m rangeOrder hist = Returned hist' \<and> historyKeyed hist'"
proof (induction rangeOrder arbitrary: hist)
  case Nil
  then show ?case by simp
next
  case (Cons key rangeOrder)
  show ?case
  proof (cases "m key")
    case None
    with Cons show ?thesis by simp
  next
    case (Some recs)
    with Cons.prems have "keyedRecords h key recs" by (simp add: allKeyed_def)
    from rangeVisit_keyed [OF this Cons.prems(2)] obtain hist'
      where v: "rangeVisit hist key recs = Some hist'" and k: "historyKeyed hist'" by blast
    from Cons.IH [OF Cons.prems(1) k] Some v show ?thesis by simp
  qed
qed

subsection \<open>Each goroutine owns the keys of its vault\<close>

lemma taskInv_other_step:
  "taskInv w c a opts m t \<Longrightarrow>
   \<forall>b. m' (eventKeyOf (HashNibbleHigh w) a b) = m (eventKeyOf (HashNibbleHigh w) a b) \<Longrightarrow>
   taskInv w c a opts m' t"
  by (cases t) auto

lemma taskInv_own_step:
  assumes inv: "taskInv w c a opts m t" and step: "taskStep w c m t = (m', t')"
  shows "taskInv w c a opts m' t'
       \<and> (\<forall>key. (\<forall>b. key \<noteq> eventKeyOf (HashNibbleHigh w) a b) \<longrightarrow> m' key = m key)"
proof (cases t)
  case (Fetching a' opts')
  with inv step show ?thesis
    by (cases "FilterUpdateManagementFee w c a opts") (auto simp: soloMap_def)
next
  case (Iterating a' logIter)
  with inv obtain "done" where a: "a' = a"
    and q: "FilterUpdateManagementFee w c a opts = Inr (done @ logIter)"
    and m: "\<forall>b. m (eventKeyOf (HashNibbleHigh w) a b) =
               foldl (roundEffect w a) Map.empty done (eventKeyOf (HashNibbleHigh w) a b)"
    by auto
  show ?thesis
  proof (cases logIter)
    case Nil
    with Iterating step q m show ?thesis by (auto simp: soloMap_def)
  next
    case (Cons entry rest)
    show ?thesis
    proof (cases "IterationError entry = None")
      case False
      then have "foldl (roundEffect w a) Map.empty (done @ [entry]) =
          foldl (roundEffect w a) Map.empty done"
        by (simp add: roundEffect_def)
      with m q Cons have "taskInv w c a opts m (Iterating a rest)"
        by (auto intro!: exI [of _ "done @ [entry]"])
      with False Iterating Cons step a show ?thesis by (auto simp: taskStep_round)
    next
      case True
      let ?k = "eventKeyOf (HashNibbleHigh w) a (RawBlockNumber (Raw (Event entry)))"
      from m have "loaded m ?k = loaded (foldl (roundEffect w a) Map.empty done) ?k"
        by (simp add: loaded_def)
      with True m q Cons
      have "taskInv w c a opts m (Storing a ?k (loaded m ?k @ [blockDataOf entry]) rest)"
        by auto
      with True Iterating Cons step a show ?thesis by (auto simp: taskStep_round)
    qed
  qed
next
  case (Storing a' key recs rest)
  with inv obtain "done" entry where a: "a' = a"
    and q: "FilterUpdateManagementFee w c a opts = Inr (done @ entry # rest)"
    and e: "IterationError entry = None"
    and k: "key = eventKeyOf (HashNibbleHigh w) a (RawBlockNumber (Raw (Event entry)))"
    and r: "recs = loaded (foldl (roundEffect w a) Map.empty done) key @ [blockDataOf entry]"
    and m: "\<forall>b. m (eventKeyOf (HashNibbleHigh w) a b) =
               foldl (roundEffect w a) Map.empty done (eventKeyOf (HashNibbleHigh w) a b)"
    by auto
  from e k r have "foldl (roundEffect w a) Map.empty (done @ [entry]) =
      (foldl (roundEffect w a) Map.empty done)(key \<mapsto> recs)"
    by (simp add: roundEffect_def)
  with m have "\<forall>b. (m(key \<mapsto> recs)) (eventKeyOf (HashNibbleHigh w) a b) =
      foldl (roundEffect w a) Map.empty (done @ [entry]) (eventKeyOf (HashNibbleHigh w) a b)"
    by simp
  with q have "taskInv w c a opts (m(key \<mapsto> recs)) (Iterating a rest)"
    by (auto intro!: exI [of _ "done @ [entry]"])
  with Storing step a k show ?thesis by auto
next
  case Finished
  with inv step show ?thesis by auto
qed

lemma scheduleStep_inv:
  assumes d: "distinct (map fst specs)" and inv: "cfgInv w c specs cfg"
  shows "cfgInv w c specs (scheduleStep w c cfg i)"
proof (cases cfg)
  case (Pair m ts)
  let ?K = "eventKeyOf (HashNibbleHigh w)"
  from inv Pair have len: "length ts = length specs"
    and each: "\<And>j. j < length specs \<Longrightarrow>
                 taskInv w c (fst (specs ! j)) (snd (specs ! j)) m (ts ! j)"
    and free: "\<And>key. (\<forall>j < length specs. \<forall>b. key \<noteq> ?K (fst (specs ! j)) b) \<Longrightarrow>
                 m key = None"
    unfolding cfgInv_def by simp_all
  show ?thesis
  proof (cases "i < length ts")
    case False
    then have "scheduleStep w c cfg i = cfg" by (simp add: scheduleStep_def Pair)
    with inv show ?thesis by simp
  next
    case True
    obtain m' t' where step: "taskStep w c m (ts ! i) = (m', t')"
      by (cases "taskStep w c m (ts ! i)")
    from True step have res: "scheduleStep w c cfg i = (m', ts[i := t'])"
      by (simp add: scheduleStep_def Pair)
    from True len have i: "i < length specs" by simp
    from taskInv_own_step [OF each [OF i] step]
    have own: "taskInv w c (fst (specs ! i)) (snd (specs ! i)) m' t'"
      and frame: "\<And>key. (\<forall>b. key \<noteq> ?K (fst (specs ! i)) b) \<Longrightarrow> m' key = m key"
      by blast+
    have tasks: "taskInv w c (fst (specs ! j)) (snd (specs ! j)) m' (ts[i := t'] ! j)"
      if j: "j < length specs" for j
    proof (cases "j = i")
      case True
      with own j len show ?thesis by simp
    next
      case False
      from d j i False have ne: "fst (specs ! j) \<noteq> fst (specs ! i)"
        using nth_eq_iff_index_eq [of "map fst specs" j i] by simp
      have "m' (?K (fst (specs ! j)) b) = m (?K (fst (specs ! j)) b)" for b
        using ne by (intro frame) simp
      then have "\<forall>b. m' (?K (fst (specs ! j)) b) = m (?K (fst (specs ! j)) b)" by blast
      with each [OF j] have "taskInv w c (fst (specs ! j)) (snd (specs ! j)) m' (ts ! j)"
        by (rule taskInv_other_step)
      with False show ?thesis by simp
    qed
    have unowned: "m' key = None"
      if un: "\<forall>j < length specs. \<forall>b. key \<noteq> ?K (fst (specs ! j)) b" for key
    proof -
      from un i have "\<forall>b. key \<noteq> ?K (fst (specs ! i)) b" by blast
      then have "m' key = m key" by (rule frame)
      with free [OF un] show ?thesis by simp
    qed
    have "cfgInv w c specs (m', ts[i := t'])"
      unfolding cfgInv_def fst_conv snd_conv
    proof (intro conjI allI impI)
      show "length (ts[i := t']) = length specs" using len by simp
    next
      fix j assume "j < length specs"
      then show "taskInv w c (fst (specs ! j)) (snd (specs ! j)) m' (ts[i := t'] ! j)"
        by (rule tasks)
    next
      fix key
      assume "\<forall>j < length specs. \<forall>b. key \<noteq> ?K (fst (specs ! j)) b"
      then show "m' key = None" by (rule unowned)
    qed
    with res show ?thesis by simp
  qed
qed

lemma runSchedule_inv:
  "distinct (map fst specs) \<Longrightarrow> cfgInv w c specs cfg \<Longrightarrow>
   cfgInv w c specs (runSchedule w c cfg schedule)"
proof (induction schedule arbitrary: cfg)
  case Nil
  then show ?case by (simp add: runSchedule_def)
next
  case (Cons i schedule)
  from Cons.prems have "cfgInv w c specs (scheduleStep w c cfg i)"
    by (rule scheduleStep_inv)
  with Cons.prems(1) have "cfgInv w c specs (runSchedule w c (scheduleStep w c cfg i) schedule)"
    by (rule Cons.IH)
  then show ?case by (simp add: runSchedule_def)
qed

lemma afterWait_inv:
  assumes "distinct (map Address vaults)"
  shows "cfgInv w c (vaultSpecs vaults start end) (afterWait w c vaults start end schedule)"
proof -
  have "map fst (vaultSpecs vaults start end) = map Address vaults"
    by (simp add: vaultSpecs_def comp_def)
  with assms have d: "distinct (map fst (vaultSpecs vaults start end))" by simp
  have "cfgInv w c (vaultSpecs vaults start end) (Map.empty, spawnTasks vaults start end)"
    by (simp add: cfgInv_def vaultSpecs_def spawnTasks_def)
  with d show ?thesis unfolding afterWait_def by (rule runSchedule_inv)
qed

lemma finished_maps_agree:
  assumes inv: "cfgInv w c specs (m, ts)" and fin: "list_all isFinished ts"
    and inv': "cfgInv w c specs' (m', ts')" and fin': "list_all isFinished ts'"
    and d: "distinct (map fst specs)"
    and sub: "set specs' \<subseteq> set specs"
    and failed: "\<forall>(a, opts) \<in> set specs - set specs'.
                   \<exists>err. FilterUpdateManagementFee w c a opts = Inl err"
  shows "m = m'"
proof
  fix key
  let ?K = "eventKeyOf (HashNibbleHigh w)"
  have solo: "m (?K (fst (specs ! i)) b) = soloMap w c (fst (specs ! i)) (snd (specs ! i)) (?K (fst (specs ! i)) b)"
    if "i < length specs" for i b
  proof -
    from inv that have "taskInv w c (fst (specs ! i)) (snd (specs ! i)) m (ts ! i)"
      and "i < length ts" by (simp_all add: cfgInv_def)
    moreover from this fin have "ts ! i = Finished"
      by (cases "ts ! i") (auto simp: list_all_length)
    ultimately show ?thesis by simp
  qed
  have solo': "m' (?K (fst (specs' ! j)) b) = soloMap w c (fst (specs' ! j)) (snd (specs' ! j)) (?K (fst (specs' ! j)) b)"
    if "j < length specs'" for j b
  proof -
    from inv' that have "taskInv w c (fst (specs' ! j)) (snd (specs' ! j)) m' (ts' ! j)"
      and "j < length ts'" by (simp_all add: cfgInv_def)
    moreover from this fin' have "ts' ! j = Finished"
      by (cases "ts' ! j") (auto simp: list_all_length)
    ultimately show ?thesis by simp
  qed
  show "m key = m' key"
  proof (cases "\<exists>i < length specs. \<exists>b. key = ?K (fst (specs ! i)) b")
    case False
    then have none: "\<forall>i < length specs. \<forall>b. key \<noteq> ?K (fst (specs ! i)) b" by blast
    have "\<forall>j < length specs'. \<forall>b. key \<noteq> ?K (fst (specs' ! j)) b"
    proof (intro allI impI)
      fix j b
      assume j: "j < length specs'"
      with sub have "specs' ! j \<in> set specs" by auto
      then obtain i where "i < length specs" "specs ! i = specs' ! j"
        by (auto simp: in_set_conv_nth)
      with none show "key \<noteq> ?K (fst (specs' ! j)) b" by metis
    qed
    with inv' have "m' key = None" by (simp add: cfgInv_def)
    moreover from none inv have "m key = None" by (simp add: cfgInv_def)
    ultimately show ?thesis by simp
  next
    case True
    then obtain i b where i: "i < length specs" and key: "key = ?K (fst (specs ! i)) b" by blast
    show ?thesis
    proof (cases "specs ! i \<in> set specs'")
      case True
      then obtain j where j: "j < length specs'" and eq: "specs' ! j = specs ! i"
        by (auto simp: in_set_conv_nth)
      from solo [OF i, of b] solo' [OF j, of b] show ?thesis by (simp add: key eq)
    next
      case False
      with i failed obtain err where
        "FilterUpdateManagementFee w c (fst (specs ! i)) (snd (specs ! i)) = Inl err"
        by (force simp: split_beta)
      with solo [OF i, of b] have mk: "m key = None" by (simp add: key soloMap_def)
      have "\<forall>j < length specs'. \<forall>b'. key \<noteq> ?K (fst (specs' ! j)) b'"
      proof (intro allI impI notI)
        fix j b'
        assume j: "j < length specs'" and "key = ?K (fst (specs' ! j)) b'"
        with key have same: "fst (specs' ! j) = fst (specs ! i)" by simp
        from j sub have "specs' ! j \<in> set specs" by auto
        then obtain i' where i': "i' < length specs" "specs ! i' = specs' ! j"
          by (auto simp: in_set_conv_nth)
        with same have eq: "map fst specs ! i' = map fst specs ! i" using i by simp
        from d have "(map fst specs ! i' = map fst specs ! i) = (i' = i)"
          by (rule nth_eq_iff_index_eq) (simp_all add: i i')
        with eq have "i' = i" by blast
        with i' j False show False by auto
      qed
      with inv' have "m' key = None" by (simp add: cfgInv_def)
      with mk show ?thesis by simp
    qed
  qed
qed

subsection \<open>Fair schedules, and what the reshape returns\<close>

lemma taskStep_turns:
  "taskStep w c m t = (m', t') \<Longrightarrow> turnsNeeded w c t' = turnsNeeded w c t - 1"
proof (cases t)
  case (Iterating a logIter)
  assume "taskStep w c m t = (m', t')"
  with Iterating show ?thesis
    by (cases logIter) (auto simp: taskStep_round split: if_splits)
qed (auto split: sum.splits)

lemma isFinished_turns: "isFinished t \<longleftrightarrow> turnsNeeded w c t = 0"
  by (cases t) (auto split: sum.splits)

lemma scheduleStep_turns:
  assumes "scheduleStep w c (m, ts) i = (m', ts')"
  shows "length ts' = length ts"
    and "j < length ts \<Longrightarrow>
         turnsNeeded w c (ts' ! j) = turnsNeeded w c (ts ! j) - (if j = i then 1 else 0)"
proof -
  show "length ts' = length ts"
    using assms by (auto simp: scheduleStep_def split_beta split: if_splits)
  assume j: "j < length ts"
  show "turnsNeeded w c (ts' ! j) = turnsNeeded w c (ts ! j) - (if j = i then 1 else 0)"
  proof (cases "i < length ts")
    case False
    with assms j show ?thesis by (auto simp: scheduleStep_def)
  next
    case True
    obtain m1 t1 where step: "taskStep w c m (ts ! i) = (m1, t1)"
      by (cases "taskStep w c m (ts ! i)")
    with True assms have "ts' = ts[i := t1]" by (simp add: scheduleStep_def)
    with j taskStep_turns [OF step] show ?thesis by (simp add: nth_list_update)
  qed
qed

lemma runSchedule_turns:
  "runSchedule w c (m, ts) schedule = (m', ts') \<Longrightarrow>
   length ts' = length ts \<and>
   (\<forall>j < length ts.
      turnsNeeded w c (ts' ! j) = turnsNeeded w c (ts ! j) - count_list schedule j)"
proof (induction schedule arbitrary: m ts)
  case Nil
  then show ?case by (simp add: runSchedule_def)
next
  case (Cons i schedule)
  obtain m1 ts1 where first: "scheduleStep w c (m, ts) i = (m1, ts1)"
    by (cases "scheduleStep w c (m, ts) i")
  with Cons.prems have "runSchedule w c (m1, ts1) schedule = (m', ts')"
    by (simp add: runSchedule_def)
  from Cons.IH [OF this] have len: "length ts' = length ts1"
    and rest: "\<And>j. j < length ts1 \<Longrightarrow>
      turnsNeeded w c (ts' ! j) = turnsNeeded w c (ts1 ! j) - count_list schedule j"
    by simp_all
  from scheduleStep_turns [OF first] have len1: "length ts1 = length ts"
    and one: "\<And>j. j < length ts \<Longrightarrow>
      turnsNeeded w c (ts1 ! j) = turnsNeeded w c (ts ! j) - (if j = i then 1 else 0)"
    by simp_all
  show ?case
  proof (intro conjI allI impI)
    show "length ts' = length ts" using len len1 by simp
  next
    fix j assume j: "j < length ts"
    with rest [of j] one [of j] len1
    show "turnsNeeded w c (ts' ! j) = turnsNeeded w c (ts ! j) - count_list (i # schedule) j"
      by auto
  qed
qed

lemma fairSchedule_finished:
  "list_all isFinished (snd (afterWait w c vaults start end schedule)) \<longleftrightarrow>
   fairSchedule w c vaults start end schedule"
proof -
  obtain m ts where run: "afterWait w c vaults start end schedule = (m, ts)"
    by (cases "afterWait w c vaults start end schedule")
  then have "runSchedule w c (Map.empty, spawnTasks vaults start end) schedule = (m, ts)"
    by (simp add: afterWait_def)
  from runSchedule_turns [OF this]
  have len: "length ts = length vaults"
    and turns: "\<And>j. j < length vaults \<Longrightarrow>
      turnsNeeded w c (ts ! j) =
        turnsNeeded w c (spawnTasks vaults start end ! j) - count_list schedule j"
    by (simp_all add: spawnTasks_def)
  have "list_all isFinished ts \<longleftrightarrow> (\<forall>j < length vaults. turnsNeeded w c (ts ! j) = 0)"
    by (simp add: list_all_length len isFinished_turns [of _ w c])
  also have "\<dots> \<longleftrightarrow> fairSchedule w c vaults start end schedule"
    by (auto simp: fairSchedule_def list_all_iff turns)
  finally show ?thesis by (simp add: run)
qed

lemma rangeVisit_histOf:
  assumes "m (eventKeyOf h a b) = Some recs"
  shows "rangeVisit (histOf h (m |` S)) (eventKeyOf h a b) recs =
           Some (histOf h (m |` insert (eventKeyOf h a b) S))"
proof -
  let ?old = "histOf h (m |` S)"
  let ?inner = "case ?old a of None \<Rightarrow> Map.empty | Some inner \<Rightarrow> inner"
  have inner: "?inner b' = (m |` S) (eventKeyOf h a b')" for b'
    by (auto simp: histOf_def)
  have "?old(a \<mapsto> ?inner(b \<mapsto> recs)) = histOf h (m |` insert (eventKeyOf h a b) S)"
  proof (rule ext)
    fix a'
    show "(?old(a \<mapsto> ?inner(b \<mapsto> recs))) a' = histOf h (m |` insert (eventKeyOf h a b) S) a'"
    proof (cases "a' = a")
      case False
      then show ?thesis by (simp add: histOf_def restrict_map_def)
    next
      case True
      have ex: "\<exists>b'. (m |` insert (eventKeyOf h a b) S) (eventKeyOf h a b') \<noteq> None"
        using assms by (intro exI [of _ b]) simp
      have "(?inner(b \<mapsto> recs)) b' = (m |` insert (eventKeyOf h a b) S) (eventKeyOf h a b')"
        for b'
        using assms inner [of b'] by (simp add: restrict_map_def)
      then have "?inner(b \<mapsto> recs) = (\<lambda>b'. (m |` insert (eventKeyOf h a b) S) (eventKeyOf h a b'))"
        by (intro ext)
      with ex True show ?thesis by (simp add: histOf_def)
    qed
  qed
  then show ?thesis by (simp only: rangeVisit_eventKeyOf)
qed

lemma Range_histOf:
  "allKeyed h m \<Longrightarrow>
   RangeSyncMap m rangeOrder (histOf h (m |` S)) = Returned (histOf h (m |` (S \<union> set rangeOrder)))"
proof (induction rangeOrder arbitrary: S)
  case Nil
  show ?case by simp
next
  case (Cons key rangeOrder)
  show ?case
  proof (cases "m key")
    case None
    then have "m |` (S \<union> set (key # rangeOrder)) = m |` (S \<union> set rangeOrder)"
      by (auto simp: restrict_map_def fun_eq_iff)
    with None Cons show ?thesis by simp
  next
    case (Some recs)
    with Cons.prems obtain a b where key: "key = eventKeyOf h a b"
      unfolding allKeyed_def keyedRecords_def by blast
    from Some key have "rangeVisit (histOf h (m |` S)) key recs = Some (histOf h (m |` insert key S))"
      by (simp add: rangeVisit_histOf)
    moreover have "RangeSyncMap m rangeOrder (histOf h (m |` insert key S)) =
        Returned (histOf h (m |` (insert key S \<union> set rangeOrder)))"
      by (rule Cons.IH [OF Cons.prems])
    ultimately show ?thesis using Some by simp
  qed
qed

lemma Range_all:
  assumes "allKeyed h m" and "dom m \<subseteq> set rangeOrder"
  shows "RangeSyncMap m rangeOrder Map.empty = Returned (histOf h m)"
proof -
  have "histOf h (m |` {}) = Map.empty" by (simp add: histOf_def fun_eq_iff)
  moreover have "m x = None" if "x \<notin> set rangeOrder" for x
  proof -
    from that assms(2) have "x \<notin> dom m" by blast
    then show ?thesis by (simp add: domIff)
  qed
  then have "m |` ({} \<union> set rangeOrder) = m"
    by (auto simp: restrict_map_def fun_eq_iff)
  ultimately show ?thesis using Range_histOf [OF assms(1), of rangeOrder "{}"] by simp
qed

lemma Handle_returns:
  assumes "fairSchedule w c vaults start end schedule"
    and "visitsEveryKey w c vaults start end schedule rangeOrder"
  shows "HandleUpdateManagementFee w c vaults start end schedule rangeOrder =
           Returned (histOf (HashNibbleHigh w) (fst (afterWait w c vaults start end schedule)))"
proof -
  from assms(1) have "list_all isFinished (snd (afterWait w c vaults start end schedule))"
    by (simp add: fairSchedule_finished)
  moreover from assms(2)
  have "RangeSyncMap (fst (afterWait w c vaults start end schedule)) rangeOrder Map.empty =
      Returned (histOf (HashNibbleHigh w) (fst (afterWait w c vaults start end schedule)))"
    by (intro Range_all afterWait_keyed) (simp add: visitsEveryKey_def)
  ultimately show ?thesis by (simp add: HandleUpdateManagementFee_def split_beta)
qed

lemma afterWait_agree:
  assumes d: "distinct (map Address vaults)"
    and sub: "set vaults' \<subseteq> set vaults" and d': "distinct (map Address vaults')"
    and failed: "\<forall>v \<in> set vaults - set vaults'.
        \<exists>err. FilterUpdateManagementFee w c (Address v) (filterOptsFor v start end) = Inl err"
    and fair: "fairSchedule w c vaults start end schedule"
    and fair': "fairSchedule w c vaults' start end schedule'"
  shows "fst (afterWait w c vaults start end schedule) =
         fst (afterWait w c vaults' start end schedule')"
proof -
  let ?spec = "\<lambda>v. (Address v, filterOptsFor v start end)"
  obtain m ts where run: "afterWait w c vaults start end schedule = (m, ts)"
    by (cases "afterWait w c vaults start end schedule")
  obtain m' ts' where run': "afterWait w c vaults' start end schedule' = (m', ts')"
    by (cases "afterWait w c vaults' start end schedule'")
  from afterWait_inv [OF d, of w c start "end" schedule] run
  have inv: "cfgInv w c (vaultSpecs vaults start end) (m, ts)" by simp
  from afterWait_inv [OF d', of w c start "end" schedule'] run'
  have inv': "cfgInv w c (vaultSpecs vaults' start end) (m', ts')" by simp
  from fair run have fin: "list_all isFinished ts"
    using fairSchedule_finished [of w c vaults start "end" schedule] by simp
  from fair' run' have fin': "list_all isFinished ts'"
    using fairSchedule_finished [of w c vaults' start "end" schedule'] by simp
  have dd: "distinct (map fst (vaultSpecs vaults start end))"
    using d by (simp add: vaultSpecs_def comp_def)
  have ss: "set (vaultSpecs vaults' start end) \<subseteq> set (vaultSpecs vaults start end)"
    using sub by (auto simp: vaultSpecs_def)
  have ff: "\<forall>(a, opts) \<in> set (vaultSpecs vaults start end) - set (vaultSpecs vaults' start end).
      \<exists>err. FilterUpdateManagementFee w c a opts = Inl err"
  proof (clarify)
    fix a opts
    assume "(a, opts) \<in> set (vaultSpecs vaults start end)"
      and out: "(a, opts) \<notin> set (vaultSpecs vaults' start end)"
    then obtain v where v: "v \<in> set vaults" "a = Address v" "opts = filterOptsFor v start end"
      by (auto simp: vaultSpecs_def)
    with out have "v \<notin> set vaults'" by (auto simp: vaultSpecs_def)
    with v failed show "\<exists>err. FilterUpdateManagementFee w c a opts = Inl err" by auto
  qed
  from finished_maps_agree [OF inv fin inv' fin' dd ss ff] run run' show ?thesis by simp
qed

lemma count_list_upt: "count_list [0..<n] i = (if i < n then 1 else 0)"
  by (induction n) auto

lemma count_list_roundRobin: "i < n \<Longrightarrow> count_list (roundRobin n turns) i = turns"
  by (induction turns) (simp_all add: roundRobin_def count_list_upt)

lemma fairSchedule_roundRobin:
  "fairSchedule w c vaults start end
     (roundRobin (length vaults)
        (sum_list (map (turnsNeeded w c) (spawnTasks vaults start end))))"
proof -
  let ?ts = "spawnTasks vaults start end"
  have len: "length ?ts = length vaults" by (simp add: spawnTasks_def)
  have "turnsNeeded w c (?ts ! i) \<le> sum_list (map (turnsNeeded w c) ?ts)"
    if "i < length vaults" for i
  proof -
    from that len have "turnsNeeded w c (?ts ! i) \<in> set (map (turnsNeeded w c) ?ts)" by simp
    then show ?thesis by (simp add: member_le_sum_list del: set_map)
  qed
  then show ?thesis
    by (simp add: fairSchedule_def list_all_iff count_list_roundRobin)
qed

subsection \<open>The concrete runs\<close>

lemma scenario_keys:
  "key_5_100 = eventKeyOf (HashNibbleHigh eventsBackend) 5 100"
  "key_5_101 = eventKeyOf (HashNibbleHigh eventsBackend) 5 101"
  "key_6_100 = eventKeyOf (HashNibbleHigh eventsBackend) 6 100"
  by code_simp+

lemma blockDataOf_feeRound [simp]: "blockDataOf (feeRound b fee err) = feeRecord b fee"
  by (simp add: blockDataOf_def feeRound_def feeRecord_def)

lemma feeRound_sel [simp]:
  "IterationError (feeRound b fee err) = err"
  "RawBlockNumber (Raw (Event (feeRound b fee err))) = b"
  by (simp_all add: feeRound_def)

lemma BlockNumber_feeRecord [simp]: "BlockNumber (feeRecord b fee) = b"
  by (simp add: feeRecord_def)

lemma Address_vaultAt [simp]: "Address (vaultAt a) = a"
  by (simp add: vaultAt_def)

lemma scenario_query [simp]:
  "FilterUpdateManagementFee eventsBackend c 5 opts =
     Inr [feeRound 100 200 None, feeRound 100 300 None, feeRound 101 400 None]"
  "FilterUpdateManagementFee eventsBackend c 6 opts =
     Inr [feeRound 100 50 None, feeRound 102 60 (Some ''decode'')]"
  "FilterUpdateManagementFee eventsBackend c 9 opts = Inl ''rpc error''"
  by (simp_all add: eventsBackend_def)

lemma scenario_afterWait_interleaved:
  "afterWait eventsBackend 1 eventsVaults 0 None interleaved =
     (Map.empty(key_5_100 \<mapsto> [feeRecord 100 200], key_6_100 \<mapsto> [feeRecord 100 50],
                key_5_100 \<mapsto> [feeRecord 100 200, feeRecord 100 300],
                key_5_101 \<mapsto> [feeRecord 101 400]),
      [Finished, Finished, Finished])"
  by (simp add: afterWait_def runSchedule_def scheduleStep_def spawnTasks_def eventsVaults_def
      vaultAt_def filterOptsFor_def interleaved_def taskStep_round loaded_def scenario_keys)

lemma scenario_afterWait_rotated:
  "afterWait eventsBackend 1 rotatedVaults 0 None oneByOne =
     (Map.empty(key_5_100 \<mapsto> [feeRecord 100 200, feeRecord 100 300],
                key_5_101 \<mapsto> [feeRecord 101 400],
                key_6_100 \<mapsto> [feeRecord 100 50]),
      [Finished, Finished, Finished])"
  by (simp add: afterWait_def runSchedule_def scheduleStep_def spawnTasks_def rotatedVaults_def
      vaultAt_def filterOptsFor_def oneByOne_def taskStep_round loaded_def scenario_keys)

lemma scenario_afterWait_remaining:
  "afterWait eventsBackend 1 remainingVaults 0 None alternating =
     (Map.empty(key_6_100 \<mapsto> [feeRecord 100 50],
                key_5_100 \<mapsto> [feeRecord 100 200, feeRecord 100 300],
                key_5_101 \<mapsto> [feeRecord 101 400]),
      [Finished, Finished])"
  by (simp add: afterWait_def runSchedule_def scheduleStep_def spawnTasks_def remainingVaults_def
      vaultAt_def filterOptsFor_def alternating_def taskStep_round loaded_def scenario_keys)

lemma scenario_fair:
  "fairSchedule eventsBackend 1 eventsVaults 0 None interleaved"
  "fairSchedule eventsBackend 1 rotatedVaults 0 None oneByOne"
  "fairSchedule eventsBackend 1 remainingVaults 0 None alternating"
  using fairSchedule_finished [of eventsBackend 1 eventsVaults 0 None interleaved]
    fairSchedule_finished [of eventsBackend 1 rotatedVaults 0 None oneByOne]
    fairSchedule_finished [of eventsBackend 1 remainingVaults 0 None alternating]
  by (simp_all add: scenario_afterWait_interleaved scenario_afterWait_rotated
      scenario_afterWait_remaining)

lemma scenario_key_values:
  "key_5_100 \<noteq> key_5_101" "key_5_100 \<noteq> key_6_100" "key_5_101 \<noteq> key_6_100"
  by (simp_all add: key_5_100_def key_5_101_def key_6_100_def)

lemma scenario_visits:
  "visitsEveryKey eventsBackend 1 eventsVaults 0 None interleaved
     [key_6_100, key_5_101, key_5_100]"
  "visitsEveryKey eventsBackend 1 rotatedVaults 0 None oneByOne
     [key_5_100, key_6_100, key_5_101]"
  "visitsEveryKey eventsBackend 1 remainingVaults 0 None alternating
     [key_5_101, key_5_100, key_6_100]"
  using scenario_key_values
  by (auto simp: visitsEveryKey_def scenario_afterWait_interleaved scenario_afterWait_rotated
      scenario_afterWait_remaining)

lemma scenario_Handle:
  "HandleUpdateManagementFee eventsBackend 1 eventsVaults 0 None interleaved
     [key_6_100, key_5_101, key_5_100] =
   Returned (Map.empty(6 \<mapsto> Map.empty(100 \<mapsto> [feeRecord 100 50]),
                       5 \<mapsto> Map.empty(101 \<mapsto> [feeRecord 101 400],
                                     100 \<mapsto> [feeRecord 100 200, feeRecord 100 300])))"
  using scenario_key_values
  by (simp add: HandleUpdateManagementFee_def scenario_afterWait_interleaved)
    (simp add: scenario_keys rangeVisit_eventKeyOf)

subsection \<open>The claims about the event history\<close>

text \<open>
  Claim C8. Whatever the schedule (at the barrier or before it), every entry of the flat
  shared map has a key of the form vaultAddress-blockNumber and holds only records whose
  block number is that block number; and in the Event History that
  \<^verbatim>\<open>HandleUpdateManagementFee\<close> returns, every record under a vault address and a block
  number has that block number.
\<close>

theorem event_history_block_numbers:
  "(fst (afterWait w c vaults start endBlock schedule) key = Some recs \<longrightarrow>
      (\<exists>a b. key = eventKeyOf (HashNibbleHigh w) a b \<and> (\<forall>r \<in> set recs. BlockNumber r = b)))
   \<and> (HandleUpdateManagementFee w c vaults start endBlock schedule rangeOrder = Returned hist \<longrightarrow>
        hist a = Some inner \<longrightarrow> inner b = Some recs' \<longrightarrow> r \<in> set recs' \<longrightarrow> BlockNumber r = b)"
proof (intro conjI impI)
  assume "fst (afterWait w c vaults start endBlock schedule) key = Some recs"
  with afterWait_keyed [of w c vaults start endBlock schedule]
  show "\<exists>a b. key = eventKeyOf (HashNibbleHigh w) a b \<and> (\<forall>r \<in> set recs. BlockNumber r = b)"
    by (simp add: allKeyed_def keyedRecords_def)
next
  assume ret: "HandleUpdateManagementFee w c vaults start endBlock schedule rangeOrder = Returned hist"
    and look: "hist a = Some inner" "inner b = Some recs'" "r \<in> set recs'"
  have "historyKeyed Map.empty" by (simp add: historyKeyed_def)
  from Range_keyed [OF afterWait_keyed this, of w c vaults start endBlock schedule rangeOrder]
  obtain hist' where
    "RangeSyncMap (fst (afterWait w c vaults start endBlock schedule)) rangeOrder Map.empty = Returned hist'"
    and k: "historyKeyed hist'" by blast
  with ret have "hist' = hist"
    by (simp add: HandleUpdateManagementFee_def split_beta split: if_splits)
  with k look show "BlockNumber r = b" by (auto simp: historyKeyed_def)
qed

text \<open>
  The theorem on the three vaults under the interleaved schedule: the entry of the flat map
  for vault 5 and block 100, and the returned history.
\<close>

theorem event_history_block_numbers_witness:
  "fst (afterWait eventsBackend 1 eventsVaults 0 None interleaved) key_5_100 =
     Some [feeRecord 100 200, feeRecord 100 300]
   \<and> (\<exists>a b. key_5_100 = eventKeyOf (HashNibbleHigh eventsBackend) a b \<and>
         (\<forall>r \<in> set [feeRecord 100 200, feeRecord 100 300]. BlockNumber r = b))
   \<and> HandleUpdateManagementFee eventsBackend 1 eventsVaults 0 None interleaved
        [key_6_100, key_5_101, key_5_100] =
      Returned (Map.empty(6 \<mapsto> Map.empty(100 \<mapsto> [feeRecord 100 50]),
                          5 \<mapsto> Map.empty(101 \<mapsto> [feeRecord 101 400],
                                        100 \<mapsto> [feeRecord 100 200, feeRecord 100 300])))
   \<and> BlockNumber (feeRecord 100 300) = 100"
proof -
  have look: "fst (afterWait eventsBackend 1 eventsVaults 0 None interleaved) key_5_100 =
      Some [feeRecord 100 200, feeRecord 100 300]"
    using scenario_key_values by (simp add: scenario_afterWait_interleaved)
  note at = event_history_block_numbers [where w = eventsBackend and c = 1 and vaults = eventsVaults and start = 0
      and endBlock = None and schedule = interleaved and key = key_5_100
      and recs = "[feeRecord 100 200, feeRecord 100 300]"
      and rangeOrder = "[key_6_100, key_5_101, key_5_100]"
      and hist = "Map.empty(6 \<mapsto> Map.empty(100 \<mapsto> [feeRecord 100 50]),
                            5 \<mapsto> Map.empty(101 \<mapsto> [feeRecord 101 400],
                                          100 \<mapsto> [feeRecord 100 200, feeRecord 100 300]))"
      and a = 5
      and inner = "Map.empty(101 \<mapsto> [feeRecord 101 400],
                             100 \<mapsto> [feeRecord 100 200, feeRecord 100 300])"
      and b = 100 and recs' = "[feeRecord 100 200, feeRecord 100 300]"
      and r = "feeRecord 100 300"]
  from at look scenario_Handle show ?thesis by simp
qed

text \<open>
  Claim C4. For vaults with distinct addresses, any two iteration orders of the vault map,
  any two fair schedules of the goroutines and any two orders in which \<^verbatim>\<open>Range\<close> visits
  the shared map, \<^verbatim>\<open>HandleUpdateManagementFee\<close> returns, and returns the same Event History:
  the same records, in the same order, under each vault address and block number.
\<close>

theorem merge_order_independent:
  assumes "distinct (map Address vaults)"
    and "mset vaults' = mset vaults"
    and "fairSchedule w c vaults start end schedule"
    and "fairSchedule w c vaults' start end schedule'"
    and "visitsEveryKey w c vaults start end schedule rangeOrder"
    and "visitsEveryKey w c vaults' start end schedule' rangeOrder'"
  shows "\<exists>hist. HandleUpdateManagementFee w c vaults start end schedule rangeOrder = Returned hist
           \<and> HandleUpdateManagementFee w c vaults' start end schedule' rangeOrder' = Returned hist"
proof -
  from assms(2) have s: "set vaults' = set vaults" by (rule mset_eq_setD)
  from assms(2) have "mset (map Address vaults') = mset (map Address vaults)" by simp
  with assms(1) have d': "distinct (map Address vaults')" by (metis mset_eq_imp_distinct_iff)
  have "fst (afterWait w c vaults start end schedule) =
      fst (afterWait w c vaults' start end schedule')"
    using assms(1) _ d' _ assms(3,4) by (rule afterWait_agree) (simp_all add: s)
  with Handle_returns [OF assms(3,5)] Handle_returns [OF assms(4,6)] show ?thesis by simp
qed

text \<open>
  The theorem on the three vaults: interleaved goroutines against the rotated vault list
  with the goroutines one after the other, and two different orders of \<^verbatim>\<open>Range\<close>.
\<close>

theorem merge_order_independent_witness:
  "HandleUpdateManagementFee eventsBackend 1 eventsVaults 0 None interleaved
     [key_6_100, key_5_101, key_5_100] =
   HandleUpdateManagementFee eventsBackend 1 rotatedVaults 0 None oneByOne
     [key_5_100, key_6_100, key_5_101]
   \<and> (\<exists>hist. HandleUpdateManagementFee eventsBackend 1 rotatedVaults 0 None oneByOne
        [key_5_100, key_6_100, key_5_101] = Returned hist)"
proof -
  have d: "distinct (map Address eventsVaults)"
    by (simp add: eventsVaults_def vaultAt_def)
  have p: "mset rotatedVaults = mset eventsVaults"
    by (simp add: rotatedVaults_def eventsVaults_def)
  from merge_order_independent [OF d p scenario_fair(1) scenario_fair(2) scenario_visits(1) scenario_visits(2)]
  show ?thesis by auto
qed

text \<open>
  Claim C9. Every call has a fair schedule, and under every fair schedule the call returns
  an Event History, whatever the log queries answer: the result has no error component and
  the reshape does not panic. If the log query of one vault fails (the addresses being
  distinct), the history has no entry for that vault, and it is the history the call returns
  for the other vaults alone.
\<close>

theorem failed_vault_contributes_nothing:
  "fairSchedule w c vaults start end
     (roundRobin (length vaults)
        (sum_list (map (turnsNeeded w c) (spawnTasks vaults start end))))
   \<and> (fairSchedule w c vaults start end schedule \<longrightarrow>
        (\<exists>hist. HandleUpdateManagementFee w c vaults start end schedule rangeOrder
                  = Returned hist))
   \<and> (fairSchedule w c vaults start end schedule \<longrightarrow>
        distinct (map Address vaults) \<longrightarrow> v \<in> set vaults \<longrightarrow>
        FilterUpdateManagementFee w c (Address v) (filterOptsFor v start end) = Inl err \<longrightarrow>
        visitsEveryKey w c vaults start end schedule rangeOrder \<longrightarrow>
        fairSchedule w c (remove1 v vaults) start end schedule' \<longrightarrow>
        visitsEveryKey w c (remove1 v vaults) start end schedule' rangeOrder' \<longrightarrow>
        (\<exists>hist. HandleUpdateManagementFee w c vaults start end schedule rangeOrder = Returned hist
           \<and> hist (Address v) = None
           \<and> HandleUpdateManagementFee w c (remove1 v vaults) start end schedule' rangeOrder'
               = Returned hist))"
proof (intro conjI impI)
  show "fairSchedule w c vaults start end
     (roundRobin (length vaults)
        (sum_list (map (turnsNeeded w c) (spawnTasks vaults start end))))"
    by (rule fairSchedule_roundRobin)
next
  assume fair: "fairSchedule w c vaults start end schedule"
  then have fin: "list_all isFinished (snd (afterWait w c vaults start end schedule))"
    by (simp add: fairSchedule_finished)
  have "historyKeyed Map.empty" by (simp add: historyKeyed_def)
  from Range_keyed [OF afterWait_keyed this, of w c vaults start "end" schedule rangeOrder] fin
  show "\<exists>hist. HandleUpdateManagementFee w c vaults start end schedule rangeOrder = Returned hist"
    by (auto simp: HandleUpdateManagementFee_def split_beta)
next
  assume fair: "fairSchedule w c vaults start end schedule"
    and d: "distinct (map Address vaults)" and v: "v \<in> set vaults"
    and q: "FilterUpdateManagementFee w c (Address v) (filterOptsFor v start end) = Inl err"
    and vis: "visitsEveryKey w c vaults start end schedule rangeOrder"
    and fair': "fairSchedule w c (remove1 v vaults) start end schedule'"
    and vis': "visitsEveryKey w c (remove1 v vaults) start end schedule' rangeOrder'"
  let ?m = "fst (afterWait w c vaults start end schedule)"
  from d have dv: "distinct vaults" by (simp add: distinct_map)
  from d have d': "distinct (map Address (remove1 v vaults))"
    by (simp add: distinct_map inj_on_def)
  have sub: "set (remove1 v vaults) \<subseteq> set vaults" by (rule set_remove1_subset)
  have failed: "\<forall>u \<in> set vaults - set (remove1 v vaults).
      \<exists>err. FilterUpdateManagementFee w c (Address u) (filterOptsFor u start end) = Inl err"
    using dv q by auto
  have same: "?m = fst (afterWait w c (remove1 v vaults) start end schedule')"
    using d sub d' failed fair fair' by (rule afterWait_agree)
  obtain m ts where run: "afterWait w c vaults start end schedule = (m, ts)"
    by (cases "afterWait w c vaults start end schedule")
  from afterWait_inv [OF d, of w c start "end" schedule] run
  have inv: "cfgInv w c (vaultSpecs vaults start end) (m, ts)" by simp
  from fair run have fin: "list_all isFinished ts"
    using fairSchedule_finished [of w c vaults start "end" schedule] by simp
  from v obtain i where i: "i < length vaults" "vaults ! i = v" by (auto simp: in_set_conv_nth)
  with inv have "taskInv w c (Address v) (filterOptsFor v start end) m (ts ! i)"
    and "i < length ts"
    by (auto simp: cfgInv_def vaultSpecs_def)
  moreover from this fin have "ts ! i = Finished"
    by (cases "ts ! i") (auto simp: list_all_length)
  ultimately have "m (eventKeyOf (HashNibbleHigh w) (Address v) b) = None" for b
    using q by (simp add: soloMap_def)
  with run have none: "histOf (HashNibbleHigh w) ?m (Address v) = None"
    by (simp add: histOf_def)
  from Handle_returns [OF fair vis] Handle_returns [OF fair' vis'] same none
  show "\<exists>hist. HandleUpdateManagementFee w c vaults start end schedule rangeOrder = Returned hist
      \<and> hist (Address v) = None
      \<and> HandleUpdateManagementFee w c (remove1 v vaults) start end schedule' rangeOrder'
          = Returned hist"
    by simp
qed

text \<open>
  The theorem on the three vaults, the query of the vault at address 9 failing: fourteen
  rounds of turns are a fair schedule, and the history has nothing for address 9 and is the
  history of the vaults at 5 and 6.
\<close>

theorem failed_vault_contributes_nothing_witness:
  "fairSchedule eventsBackend 1 eventsVaults 0 None (roundRobin 3 14)
   \<and> (\<exists>hist. HandleUpdateManagementFee eventsBackend 1 eventsVaults 0 None interleaved
         [key_6_100, key_5_101, key_5_100] = Returned hist
       \<and> hist 9 = None
       \<and> HandleUpdateManagementFee eventsBackend 1 remainingVaults 0 None alternating
           [key_5_101, key_5_100, key_6_100] = Returned hist)"
proof -
  have d: "distinct (map Address eventsVaults)"
    by (simp add: eventsVaults_def vaultAt_def)
  have v: "vaultAt 9 \<in> set eventsVaults" by (simp add: eventsVaults_def)
  have r: "remove1 (vaultAt 9) eventsVaults = remainingVaults"
    by (simp add: eventsVaults_def remainingVaults_def vaultAt_def)
  have q: "FilterUpdateManagementFee eventsBackend 1 (Address (vaultAt 9))
      (filterOptsFor (vaultAt 9) 0 None) = Inl ''rpc error''"
    by simp
  have turns: "sum_list (map (turnsNeeded eventsBackend 1) (spawnTasks eventsVaults 0 None)) = 14"
    by (simp add: spawnTasks_def eventsVaults_def)
  note at = failed_vault_contributes_nothing [where w = eventsBackend and c = 1 and vaults = eventsVaults and start = 0
      and schedule = interleaved and v = "vaultAt 9" and err = "''rpc error''"
      and rangeOrder = "[key_6_100, key_5_101, key_5_100]" and schedule' = alternating
      and rangeOrder' = "[key_5_101, key_5_100, key_6_100]", of None]
  have len: "length eventsVaults = 3" by (simp add: eventsVaults_def)
  from at [THEN conjunct1]
  have exists: "fairSchedule eventsBackend 1 eventsVaults 0 None (roundRobin 3 14)"
    by (simp add: len turns)
  from at [THEN conjunct2, THEN conjunct2] d v q scenario_fair(1) scenario_visits(1)
    scenario_fair(3) scenario_visits(3)
  have "\<exists>hist. HandleUpdateManagementFee eventsBackend 1 eventsVaults 0 None interleaved
         [key_6_100, key_5_101, key_5_100] = Returned hist
       \<and> hist 9 = None
       \<and> HandleUpdateManagementFee eventsBackend 1 remainingVaults 0 None alternating
           [key_5_101, key_5_100, key_6_100] = Returned hist"
    by (simp add: r)
  with exists show ?thesis by simp
qed

end
